theory Spec2Isabelle
  imports Main "HOL-Library.Word"
begin

unbundle bit_operations_syntax

section \<open>The task freezer of kernel/freezer.c\<close>

text \<open>
  A shallow embedding of \<^verbatim>\<open>src/kernel/freezer.c\<close>: the freezing conditions, the per-task
  flag word, the predicate \<^verbatim>\<open>freezing_slow_path\<close>, the coordinator-side operations
  \<^verbatim>\<open>freeze_task\<close> and \<^verbatim>\<open>__thaw_task\<close>, and the task-side routines \<^verbatim>\<open>__refrigerator\<close> and
  \<^verbatim>\<open>__set_freezable\<close>. Isabelle identifiers cannot start with an underscore, so the
  leading \<^verbatim>\<open>__\<close> of a C name is written \<open>uu_\<close>.
\<close>

subsection \<open>Data model\<close>

text \<open>
  \<^verbatim>\<open>struct task_struct\<close>, reduced to the fields the file touches: \<^verbatim>\<open>unsigned int flags\<close>,
  \<^verbatim>\<open>volatile long state\<close> (32 bits on the ARM target of this tree), and the thread flag
  \<^verbatim>\<open>TIF_SIGPENDING\<close>.
\<close>

record task_struct =
  flags :: "32 word"
  state :: "32 word"
  tif_sigpending :: bool

text \<open>
  The two operations of this file that a coordinator on another processor runs on a
  task: \<^verbatim>\<open>freeze_task(p)\<close> and \<^verbatim>\<open>__thaw_task(p)\<close>.
\<close>

datatype coord_op = Freeze_task | Thaw_task

text \<open>
  Everything around one task at one moment: the three globals of lines 15-20, the values
  the external functions \<^verbatim>\<open>cgroup_freezing(p)\<close>, \<^verbatim>\<open>kthread_should_stop()\<close> and the
  pending-signal test behind \<^verbatim>\<open>recalc_sigpending\<close> would return for the task at hand, and
  the calls the coordinator makes on the task at that moment, in order.
\<close>

record env =
  system_freezing_cnt :: int
  pm_freezing :: bool
  pm_nosig_freezing :: bool
  cgroup_freezing :: bool
  kthread_should_stop :: bool
  signals_pending :: bool
  coordinator :: "coord_op list"

text \<open>
  Modelled from the spec: the four \<^verbatim>\<open>PF_*\<close> masks of \<^verbatim>\<open>include/linux/sched.h\<close>, which is
  not under src/. The specification has them as "four independent boolean attributes
  per task" (\<open>freezing\<close>, \<open>no_freeze\<close>, \<open>frozen\<close>, \<open>freezer_nosig\<close>); the values are the
  single bits of the header of this kernel generation. The proofs use only that the
  four masks are distinct single bits.
\<close>

definition PF_FREEZING :: "32 word" where "PF_FREEZING = 0x00004000"
definition PF_NOFREEZE :: "32 word" where "PF_NOFREEZE = 0x00008000"
definition PF_FROZEN :: "32 word" where "PF_FROZEN = 0x00010000"
definition PF_FREEZER_NOSIG :: "32 word" where "PF_FREEZER_NOSIG = 0x80000000"

text \<open>
  Modelled from the spec: the task states of \<^verbatim>\<open>include/linux/sched.h\<close>, which is not under
  src/: runnable, "interruptible wait" and "blocked, non-interruptible", with the values
  of the header of this kernel generation.
\<close>

definition TASK_RUNNING :: "32 word" where "TASK_RUNNING = 0"
definition TASK_INTERRUPTIBLE :: "32 word" where "TASK_INTERRUPTIBLE = 1"
definition TASK_UNINTERRUPTIBLE :: "32 word" where "TASK_UNINTERRUPTIBLE = 2"

text \<open>\<^verbatim>\<open>p->flags & MASK\<close> as a C truth value, \<^verbatim>\<open>|=\<close> and \<^verbatim>\<open>&= ~\<close> on the flag word.\<close>

definition test_flag :: "32 word \<Rightarrow> task_struct \<Rightarrow> bool" where
  "test_flag m p = (flags p AND m \<noteq> 0)"

definition set_flag :: "32 word \<Rightarrow> task_struct \<Rightarrow> task_struct" where
  "set_flag m p = p\<lparr>flags := flags p OR m\<rparr>"

definition clear_flag :: "32 word \<Rightarrow> task_struct \<Rightarrow> task_struct" where
  "clear_flag m p = p\<lparr>flags := flags p AND NOT m\<rparr>"

subsection \<open>The freeze predicate\<close>

text \<open>\<^verbatim>\<open>freezing_slow_path\<close>, lines 34-46.\<close>

definition freezing_slow_path :: "env \<Rightarrow> task_struct \<Rightarrow> bool" where
  "freezing_slow_path e p =
     (if test_flag PF_NOFREEZE p then False
      else if pm_nosig_freezing e \<or> cgroup_freezing e then True
      else if pm_freezing e \<and> \<not> test_flag PF_FREEZER_NOSIG p then True
      else False)"

text \<open>
  Modelled from the spec: \<^verbatim>\<open>frozen(p)\<close> of \<^verbatim>\<open>include/linux/freezer.h\<close>, which is not under
  src/; it is the specification's read-only \<open>is_frozen(task)\<close>, the frozen attribute.
\<close>

definition frozen :: "task_struct \<Rightarrow> bool" where
  "frozen p = test_flag PF_FROZEN p"

text \<open>
  Modelled from the spec: \<^verbatim>\<open>should_send_signal(p)\<close> of \<^verbatim>\<open>include/linux/freezer.h\<close>, which is
  not under src/: "the target should be notified via the signal-like channel
  (\<open>\<not> task.freezer_nosig\<close>)".
\<close>

definition should_send_signal :: "task_struct \<Rightarrow> bool" where
  "should_send_signal p = (\<not> test_flag PF_FREEZER_NOSIG p)"

text \<open>
  Modelled from the spec: \<^verbatim>\<open>freezing(p)\<close> of \<^verbatim>\<open>include/linux/freezer.h\<close>, which is not under
  src/. The specification's \<open>should_freeze\<close> is the logic of \<^verbatim>\<open>freezing_slow_path\<close>, and its
  registry counts the freezing conditions in \<open>active_count\<close>; the comment at lines 29-30 of
  the source says how \<^verbatim>\<open>freezing()\<close> joins the two: it calls \<^verbatim>\<open>freezing_slow_path\<close> if
  \<^verbatim>\<open>system_freezing_cnt\<close> is not zero, and no task is freezing while the counter is zero.
\<close>

definition freezing :: "env \<Rightarrow> task_struct \<Rightarrow> bool" where
  "freezing e p =
     (if system_freezing_cnt e = 0 then False else freezing_slow_path e p)"

text \<open>
  The freeze predicate as section 4.1 of the specification words it, over the four
  booleans it reads; compared with the source's function in the first theorem.
\<close>

definition should_freeze_spec :: "bool \<Rightarrow> bool \<Rightarrow> bool \<Rightarrow> bool \<Rightarrow> bool \<Rightarrow> bool" where
  "should_freeze_spec no_freeze freezer_nosig signaled_freezing nosig_freezing group_target =
     (if no_freeze then False
      else if nosig_freezing \<or> group_target then True
      else if signaled_freezing \<and> \<not> freezer_nosig then True
      else False)"

subsection \<open>Scheduler and signal primitives\<close>

text \<open>
  The scheduler and signal primitives the file calls live outside src/; sections 4.2-4.4
  and 6 of the specification say what each does to the task it is called on.
\<close>

text \<open>
  Modelled from the spec: \<^verbatim>\<open>wake_up_state(p, mask)\<close>, not under src/: "directly transition
  the task's scheduling state from interruptible wait to runnable"
  (\<open>deliver_wake(task, only_if_state)\<close>), for the states in the mask.
\<close>

definition wake_up_state :: "task_struct \<Rightarrow> 32 word \<Rightarrow> task_struct" where
  "wake_up_state p m = (if state p AND m \<noteq> 0 then p\<lparr>state := TASK_RUNNING\<rparr> else p)"

text \<open>
  Modelled from the spec: \<^verbatim>\<open>wake_up_process(p)\<close>, not under src/: "issue a plain wake
  (transition scheduling state to runnable)".
\<close>

definition wake_up_process :: "task_struct \<Rightarrow> task_struct" where
  "wake_up_process p = p\<lparr>state := TASK_RUNNING\<rparr>"

text \<open>
  Modelled from the spec: \<^verbatim>\<open>signal_wake_up(p, resume)\<close>, not under src/: "deliver a wake
  notification that also marks a pending-interrupt indicator on the task, so that the
  task, if currently in an interruptible wait, reschedules immediately".
\<close>

definition signal_wake_up :: "task_struct \<Rightarrow> bool \<Rightarrow> task_struct" where
  "signal_wake_up p resume = wake_up_state (p\<lparr>tif_sigpending := True\<rparr>) TASK_INTERRUPTIBLE"

text \<open>
  Modelled from the spec: \<^verbatim>\<open>recalc_sigpending()\<close> on the current task, not under src/:
  "clears/recomputes whether a pending-interrupt marker should still be considered
  outstanding, given currently pending external triggers".
\<close>

definition recalc_sigpending :: "env \<Rightarrow> task_struct \<Rightarrow> task_struct" where
  "recalc_sigpending e p = p\<lparr>tif_sigpending := signals_pending e\<rparr>"

text \<open>
  Modelled from the spec: \<^verbatim>\<open>recalc_sigpending_and_wake(p)\<close>, not under src/, the
  \<open>reconcile_pending_notification(task)\<close> of the specification: "clear any
  pending-interrupt indicator and reconcile pending-notification bookkeeping".
\<close>

definition recalc_sigpending_and_wake :: "env \<Rightarrow> task_struct \<Rightarrow> task_struct" where
  "recalc_sigpending_and_wake e p = p\<lparr>tif_sigpending := signals_pending e\<rparr>"

text \<open>
  Modelled from the spec: \<^verbatim>\<open>set_current_state(s)\<close>, not under src/, the
  \<open>set_execution_state(state)\<close> of the specification.
\<close>

definition set_current_state :: "32 word \<Rightarrow> task_struct \<Rightarrow> task_struct" where
  "set_current_state s p = p\<lparr>state := s\<rparr>"

text \<open>
  Modelled from the spec: \<^verbatim>\<open>schedule()\<close>, not under src/: "yield the processor (suspend
  until rescheduled)"; the task that comes back from it is runnable.
\<close>

definition schedule :: "task_struct \<Rightarrow> task_struct" where
  "schedule p = p\<lparr>state := TASK_RUNNING\<rparr>"

subsection \<open>Freeze request and thaw\<close>

text \<open>
  \<^verbatim>\<open>freeze_task\<close> and \<^verbatim>\<open>__thaw_task\<close> are straight-line code inside one
  \<^verbatim>\<open>spin_lock_irqsave(&freezer_lock)\<close> section, so each is one function of the
  environment and the target task. Beside the updated task they return the calls made
  to the locks and to the wake primitives, in program order.
\<close>

datatype lock_id = Freezer_lock | Siglock

datatype kcall =
    Spin_lock lock_id
  | Spin_unlock lock_id
  | Signal_wake_up bool
  | Wake_up_state "32 word"
  | Wake_up_process
  | Recalc_sigpending_and_wake

fun is_wake :: "kcall \<Rightarrow> bool" where
  "is_wake (Signal_wake_up r) = True"
| "is_wake (Wake_up_state m) = True"
| "is_wake Wake_up_process = True"
| "is_wake c = False"

text \<open>\<^verbatim>\<open>fake_signal_wake_up\<close>, lines 108-115.\<close>

definition fake_signal_wake_up :: "task_struct \<Rightarrow> task_struct \<times> kcall list" where
  "fake_signal_wake_up p =
     (signal_wake_up p True, [Spin_lock Siglock, Signal_wake_up True, Spin_unlock Siglock])"

text \<open>\<^verbatim>\<open>freeze_task\<close>, lines 128-152: the return value, the task, the calls.\<close>

definition freeze_task :: "env \<Rightarrow> task_struct \<Rightarrow> bool \<times> task_struct \<times> kcall list" where
  "freeze_task e p =
     (if \<not> freezing e p \<or> frozen p
      then (False, p, [Spin_lock Freezer_lock, Spin_unlock Freezer_lock])
      else if should_send_signal p
      then (True, fst (fake_signal_wake_up p),
            [Spin_lock Freezer_lock] @ snd (fake_signal_wake_up p) @ [Spin_unlock Freezer_lock])
      else (True, wake_up_state p TASK_INTERRUPTIBLE,
            [Spin_lock Freezer_lock, Wake_up_state TASK_INTERRUPTIBLE,
             Spin_unlock Freezer_lock]))"

text \<open>\<^verbatim>\<open>__thaw_task\<close>, lines 154-176: the task and the calls.\<close>

definition uu_thaw_task :: "env \<Rightarrow> task_struct \<Rightarrow> task_struct \<times> kcall list" where
  "uu_thaw_task e p =
     (if frozen p
      then (wake_up_process p,
            [Spin_lock Freezer_lock, Wake_up_process, Spin_unlock Freezer_lock])
      else (recalc_sigpending_and_wake e p,
            [Spin_lock Freezer_lock, Spin_lock Siglock, Recalc_sigpending_and_wake,
             Spin_unlock Siglock, Spin_unlock Freezer_lock]))"

text \<open>
  What a call of the coordinator leaves of the task it is made on, and what a sequence
  of such calls does.
\<close>

definition coordinator_call :: "env \<Rightarrow> coord_op \<Rightarrow> task_struct \<Rightarrow> task_struct" where
  "coordinator_call e op p =
     (case op of
        Freeze_task \<Rightarrow> fst (snd (freeze_task e p))
      | Thaw_task \<Rightarrow> fst (uu_thaw_task e p))"

fun coordinator_calls :: "env \<Rightarrow> coord_op list \<Rightarrow> task_struct \<Rightarrow> task_struct" where
  "coordinator_calls e [] p = p"
| "coordinator_calls e (op # ops) p = coordinator_calls e ops (coordinator_call e op p)"

subsection \<open>The refrigerator and freezable registration, step by step\<close>

text \<open>
  \<^verbatim>\<open>__refrigerator\<close> (lines 50-105) and \<^verbatim>\<open>__set_freezable\<close> (lines 184-200) run on the
  current task while the coordinator changes the freezing conditions under them, so they
  are a machine that takes one statement per step; each step sees the environment of
  its own moment. A label names the source line of the statement about to run. The labels
  of \<^verbatim>\<open>__set_freezable\<close> carry its argument \<^verbatim>\<open>with_signal\<close>. \<^verbatim>\<open>pr_debug\<close> and
  \<^verbatim>\<open>might_sleep()\<close> are debugging annotations with no effect on the state.
\<close>

datatype label =
    L193_lock bool
  | L194_clear_nofreeze bool
  | L195_with_signal bool
  | L197_unlock
  | L199_try_to_freeze
  | L61_lock
  | L63_set_frozen
  | L64_unlock
  | L66_save
  | L70_recalc_sigpending
  | L74_set_freezing
  | L77_set_state
  | L78_check
  | L81_was_frozen
  | L82_schedule
  | L86_clear_freezing
  | L89_lock
  | L90_recheck
  | L92_clear_frozen
  | L93_unlock
  | L102_restore
  | L104_return
  | Returned bool

text \<open>
  The configuration of the running task: the label, \<^verbatim>\<open>current\<close>, whether the task holds
  \<^verbatim>\<open>freezer_lock\<close>, and the argument and locals of \<^verbatim>\<open>__refrigerator\<close>.
\<close>

record config =
  pc :: label
  cur :: task_struct
  lock_held :: bool
  check_kthr_stop :: bool
  was_frozen :: bool
  save :: "32 word"

text \<open>
  One statement. The taken \<^verbatim>\<open>goto repeat\<close> of line 91 leads to \<open>L63_set_frozen\<close> with the
  lock still held; the \<^verbatim>\<open>siglock\<close> section of lines 69-71 is one step. A spinning
  \<^verbatim>\<open>spin_lock_irq\<close> and a task parked in \<^verbatim>\<open>schedule()\<close> take their step when the lock is
  free or the task is woken; the environment of that step is the one of that moment.

  Modelled from the spec: the step of \<open>L199_try_to_freeze\<close> is the call \<^verbatim>\<open>try_to_freeze()\<close>
  of line 199, whose body is in \<^verbatim>\<open>include/linux/freezer.h\<close>, not under src/. Section 4.5
  has it "evaluate \<open>should_freeze(self)\<close>; if true, call \<open>enter_refrigerator\<close> and return
  its result; else return false"; the predicate is \<^verbatim>\<open>freezing(current)\<close> and the call is
  \<^verbatim>\<open>__refrigerator(false)\<close>.
\<close>

definition step :: "env \<Rightarrow> config \<Rightarrow> config" where
  "step e c =
     (case pc c of
        L193_lock ws \<Rightarrow> c\<lparr>pc := L194_clear_nofreeze ws, lock_held := True\<rparr>
      | L194_clear_nofreeze ws \<Rightarrow>
          c\<lparr>pc := L195_with_signal ws, cur := clear_flag PF_NOFREEZE (cur c)\<rparr>
      | L195_with_signal ws \<Rightarrow>
          (if ws then c\<lparr>pc := L197_unlock, cur := clear_flag PF_FREEZER_NOSIG (cur c)\<rparr>
           else c\<lparr>pc := L197_unlock\<rparr>)
      | L197_unlock \<Rightarrow> c\<lparr>pc := L199_try_to_freeze, lock_held := False\<rparr>
      | L199_try_to_freeze \<Rightarrow>
          (if \<not> freezing e (cur c) then c\<lparr>pc := Returned False\<rparr>
           else c\<lparr>pc := L61_lock, check_kthr_stop := False, was_frozen := False\<rparr>)
      | L61_lock \<Rightarrow> c\<lparr>pc := L63_set_frozen, lock_held := True\<rparr>
      | L63_set_frozen \<Rightarrow> c\<lparr>pc := L64_unlock, cur := set_flag PF_FROZEN (cur c)\<rparr>
      | L64_unlock \<Rightarrow> c\<lparr>pc := L66_save, lock_held := False\<rparr>
      | L66_save \<Rightarrow> c\<lparr>pc := L70_recalc_sigpending, save := state (cur c)\<rparr>
      | L70_recalc_sigpending \<Rightarrow>
          c\<lparr>pc := L74_set_freezing, cur := recalc_sigpending e (cur c)\<rparr>
      | L74_set_freezing \<Rightarrow> c\<lparr>pc := L77_set_state, cur := set_flag PF_FREEZING (cur c)\<rparr>
      | L77_set_state \<Rightarrow>
          c\<lparr>pc := L78_check, cur := set_current_state TASK_UNINTERRUPTIBLE (cur c)\<rparr>
      | L78_check \<Rightarrow>
          (if \<not> freezing e (cur c) \<or> (check_kthr_stop c \<and> kthread_should_stop e)
           then c\<lparr>pc := L86_clear_freezing\<rparr>
           else c\<lparr>pc := L81_was_frozen\<rparr>)
      | L81_was_frozen \<Rightarrow> c\<lparr>pc := L82_schedule, was_frozen := True\<rparr>
      | L82_schedule \<Rightarrow> c\<lparr>pc := L77_set_state, cur := schedule (cur c)\<rparr>
      | L86_clear_freezing \<Rightarrow> c\<lparr>pc := L89_lock, cur := clear_flag PF_FREEZING (cur c)\<rparr>
      | L89_lock \<Rightarrow> c\<lparr>pc := L90_recheck, lock_held := True\<rparr>
      | L90_recheck \<Rightarrow>
          (if freezing e (cur c) then c\<lparr>pc := L63_set_frozen\<rparr>
           else c\<lparr>pc := L92_clear_frozen\<rparr>)
      | L92_clear_frozen \<Rightarrow> c\<lparr>pc := L93_unlock, cur := clear_flag PF_FROZEN (cur c)\<rparr>
      | L93_unlock \<Rightarrow> c\<lparr>pc := L102_restore, lock_held := False\<rparr>
      | L102_restore \<Rightarrow> c\<lparr>pc := L104_return, cur := set_current_state (save c) (cur c)\<rparr>
      | L104_return \<Rightarrow> c\<lparr>pc := Returned (was_frozen c)\<rparr>
      | Returned b \<Rightarrow> c)"

text \<open>
  Between two statements of the task the coordinator may run \<^verbatim>\<open>freeze_task\<close> and
  \<^verbatim>\<open>__thaw_task\<close> on it. Both take \<^verbatim>\<open>freezer_lock\<close>, so they land only while the task does
  not hold it; a call that has to spin lands at a later moment. Their wakes write the
  task's state and pending-signal marker as the wake primitives say. Once the function
  has returned the execution is over.
\<close>

definition deliver :: "env \<Rightarrow> config \<Rightarrow> config" where
  "deliver e c =
     (case pc c of
        Returned b \<Rightarrow> c
      | l \<Rightarrow> if lock_held c then c
             else c\<lparr>cur := coordinator_calls e (coordinator e) (cur c)\<rparr>)"

text \<open>
  An execution: at its \<open>n\<close>-th moment the task is in the environment \<open>es n\<close>, the
  coordinator's calls of that moment land, and the task takes its next statement;
  \<open>exec es n c\<close> is the configuration after \<open>n\<close> such moments from \<open>c\<close>. The
  environments are arbitrary, so every interleaving of the coordinator (its changes to
  the freezing conditions, its freeze requests and its thaws) with the task is one
  choice of \<open>es\<close>, and a task that stays parked is a prefix of an execution.
\<close>

primrec exec :: "(nat \<Rightarrow> env) \<Rightarrow> nat \<Rightarrow> config \<Rightarrow> config" where
  "exec es 0 c = c"
| "exec es (Suc n) c = step (es n) (deliver (es n) (exec es n c))"

text \<open>
  The entry of \<^verbatim>\<open>__refrigerator(check_kthr_stop)\<close> on task \<open>p\<close>: \<^verbatim>\<open>was_frozen\<close> is
  initialised at line 54, \<^verbatim>\<open>save\<close> is not, so its first value \<open>sv\<close> is arbitrary. The
  entries of \<^verbatim>\<open>__set_freezable(with_signal)\<close> and of a bare \<^verbatim>\<open>try_to_freeze()\<close>.
\<close>

definition refrigerator_entry :: "bool \<Rightarrow> task_struct \<Rightarrow> 32 word \<Rightarrow> config" where
  "refrigerator_entry chk p sv =
     \<lparr>pc = L61_lock, cur = p, lock_held = False, check_kthr_stop = chk,
      was_frozen = False, save = sv\<rparr>"

definition set_freezable_entry :: "bool \<Rightarrow> task_struct \<Rightarrow> 32 word \<Rightarrow> config" where
  "set_freezable_entry ws p sv =
     \<lparr>pc = L193_lock ws, cur = p, lock_held = False, check_kthr_stop = False,
      was_frozen = False, save = sv\<rparr>"

definition try_to_freeze_entry :: "task_struct \<Rightarrow> 32 word \<Rightarrow> config" where
  "try_to_freeze_entry p sv =
     \<lparr>pc = L199_try_to_freeze, cur = p, lock_held = False, check_kthr_stop = False,
      was_frozen = False, save = sv\<rparr>"

subsection \<open>Environments of the scenarios\<close>

text \<open>
  No freezing condition; the suspend path's signal-interruptible condition; the
  no-signal condition, each without a call of the coordinator; an environment sequence
  that shows \<open>e\<close> to the steps \<open>a \<le> i < b\<close> and no freezing condition to the others; and
  a sequence in which one call of the coordinator lands at step \<open>k\<close>.
\<close>

definition idle_env :: env where
  "idle_env = \<lparr>system_freezing_cnt = 0, pm_freezing = False, pm_nosig_freezing = False,
     cgroup_freezing = False, kthread_should_stop = False, signals_pending = False,
     coordinator = []\<rparr>"

definition pm_env :: env where
  "pm_env = \<lparr>system_freezing_cnt = 1, pm_freezing = True, pm_nosig_freezing = False,
     cgroup_freezing = False, kthread_should_stop = False, signals_pending = False,
     coordinator = []\<rparr>"

definition nosig_env :: env where
  "nosig_env = \<lparr>system_freezing_cnt = 1, pm_freezing = True, pm_nosig_freezing = True,
     cgroup_freezing = False, kthread_should_stop = False, signals_pending = False,
     coordinator = []\<rparr>"

definition window :: "env \<Rightarrow> nat \<Rightarrow> nat \<Rightarrow> nat \<Rightarrow> env" where
  "window e a b i = (if a \<le> i \<and> i < b then e else idle_env)"

definition with_call :: "coord_op \<Rightarrow> nat \<Rightarrow> (nat \<Rightarrow> env) \<Rightarrow> nat \<Rightarrow> env" where
  "with_call op k es i = (if i = k then (es i)\<lparr>coordinator := [op]\<rparr> else es i)"

definition task0 :: "32 word \<Rightarrow> 32 word \<Rightarrow> task_struct" where
  "task0 f s = \<lparr>flags = f, state = s, tif_sigpending = False\<rparr>"

subsection \<open>Invariants of the machine\<close>

text \<open>The labels at which the running task holds \<^verbatim>\<open>freezer_lock\<close>.\<close>

fun holds_lock :: "label \<Rightarrow> bool" where
  "holds_lock (L194_clear_nofreeze ws) = True"
| "holds_lock (L195_with_signal ws) = True"
| "holds_lock L197_unlock = True"
| "holds_lock L63_set_frozen = True"
| "holds_lock L64_unlock = True"
| "holds_lock L90_recheck = True"
| "holds_lock L92_clear_frozen = True"
| "holds_lock L93_unlock = True"
| "holds_lock l = False"

text \<open>The labels of \<^verbatim>\<open>__refrigerator\<close> itself, and the point of return.\<close>

fun in_refrigerator :: "label \<Rightarrow> bool" where
  "in_refrigerator (L193_lock ws) = False"
| "in_refrigerator (L194_clear_nofreeze ws) = False"
| "in_refrigerator (L195_with_signal ws) = False"
| "in_refrigerator L197_unlock = False"
| "in_refrigerator L199_try_to_freeze = False"
| "in_refrigerator l = True"

text \<open>
  \<open>freezing\<close> reads two bits of the task: two tasks that agree on \<^verbatim>\<open>PF_NOFREEZE\<close> and
  \<^verbatim>\<open>PF_FREEZER_NOSIG\<close> are the same freeze target.
\<close>

definition same_target :: "task_struct \<Rightarrow> task_struct \<Rightarrow> bool" where
  "same_target p q =
     (test_flag PF_NOFREEZE p = test_flag PF_NOFREEZE q
      \<and> test_flag PF_FREEZER_NOSIG p = test_flag PF_FREEZER_NOSIG q)"

text \<open>
  The labels between line 77 and the re-check of line 90, where the task's state is
  the one line 77 stored unless a wake has reached it; and the two states it can be in
  there once the coordinator's calls are counted in.
\<close>

fun after_set_state :: "label \<Rightarrow> bool" where
  "after_set_state L78_check = True"
| "after_set_state L86_clear_freezing = True"
| "after_set_state L89_lock = True"
| "after_set_state L90_recheck = True"
| "after_set_state l = False"

definition unint_or_running :: "32 word \<Rightarrow> bool" where
  "unint_or_running s = (s = TASK_UNINTERRUPTIBLE \<or> s = TASK_RUNNING)"

definition is_unint :: "32 word \<Rightarrow> bool" where
  "is_unint s = (s = TASK_UNINTERRUPTIBLE)"

definition check_state :: "(32 word \<Rightarrow> bool) \<Rightarrow> config \<Rightarrow> bool" where
  "check_state P c = (after_set_state (pc c) \<longrightarrow> P (state (cur c)))"

text \<open>
  The statements between line 77 and the save of line 66 that run without the lock: a
  \<^verbatim>\<open>__thaw_task\<close> landing before one of them wakes the frozen task.
\<close>

fun thaw_sensitive :: "label \<Rightarrow> bool" where
  "thaw_sensitive L66_save = True"
| "thaw_sensitive L78_check = True"
| "thaw_sensitive L86_clear_freezing = True"
| "thaw_sensitive L89_lock = True"
| "thaw_sensitive l = False"

text \<open>
  What holds from a taken \<^verbatim>\<open>goto repeat\<close> on, for a property \<open>P\<close> of states: the state,
  then the saved state, then the restored state has it.
\<close>

fun reentered :: "(32 word \<Rightarrow> bool) \<Rightarrow> config \<Rightarrow> bool" where
  "reentered P c =
     (case pc c of
        L193_lock ws \<Rightarrow> False
      | L194_clear_nofreeze ws \<Rightarrow> False
      | L195_with_signal ws \<Rightarrow> False
      | L197_unlock \<Rightarrow> False
      | L199_try_to_freeze \<Rightarrow> False
      | L61_lock \<Rightarrow> False
      | L63_set_frozen \<Rightarrow> P (state (cur c))
      | L64_unlock \<Rightarrow> P (state (cur c))
      | L66_save \<Rightarrow> P (state (cur c))
      | L93_unlock \<Rightarrow> P (save c) \<and> \<not> frozen (cur c)
      | L102_restore \<Rightarrow> P (save c) \<and> \<not> frozen (cur c)
      | L104_return \<Rightarrow> P (state (cur c)) \<and> \<not> frozen (cur c)
      | Returned b \<Rightarrow> P (state (cur c))
      | l \<Rightarrow> P (save c) \<and> (after_set_state l \<longrightarrow> P (state (cur c))))"


text \<open>The labels between the exit of the wait loop and the return.\<close>

fun past_loop :: "label \<Rightarrow> bool" where
  "past_loop L86_clear_freezing = True"
| "past_loop L89_lock = True"
| "past_loop L90_recheck = True"
| "past_loop l = False"


text \<open>
  The flags on the way out: \<^verbatim>\<open>PF_FREEZING\<close> is clear from line 86 on, \<^verbatim>\<open>PF_FROZEN\<close> from
  line 92 on, up to the return.
\<close>

fun freezing_cleared :: "label \<Rightarrow> bool" where
  "freezing_cleared L89_lock = True"
| "freezing_cleared L90_recheck = True"
| "freezing_cleared L92_clear_frozen = True"
| "freezing_cleared L93_unlock = True"
| "freezing_cleared L102_restore = True"
| "freezing_cleared L104_return = True"
| "freezing_cleared (Returned b) = True"
| "freezing_cleared l = False"

fun frozen_cleared :: "label \<Rightarrow> bool" where
  "frozen_cleared L93_unlock = True"
| "frozen_cleared L102_restore = True"
| "frozen_cleared L104_return = True"
| "frozen_cleared (Returned b) = True"
| "frozen_cleared l = False"

definition exit_flags :: "config \<Rightarrow> bool" where
  "exit_flags c =
     (in_refrigerator (pc c)
      \<and> (freezing_cleared (pc c) \<longrightarrow> \<not> test_flag PF_FREEZING (cur c))
      \<and> (frozen_cleared (pc c) \<longrightarrow> \<not> frozen (cur c)))"

text \<open>
  The number of statements between a label and the return when no freezing condition
  is seen any more.
\<close>

fun steps_left :: "label \<Rightarrow> nat" where
  "steps_left (Returned b) = 0"
| "steps_left L104_return = 1"
| "steps_left L102_restore = 2"
| "steps_left L93_unlock = 3"
| "steps_left L92_clear_frozen = 4"
| "steps_left L90_recheck = 5"
| "steps_left L89_lock = 6"
| "steps_left L86_clear_freezing = 7"
| "steps_left L78_check = 8"
| "steps_left L77_set_state = 9"
| "steps_left L82_schedule = 10"
| "steps_left L81_was_frozen = 11"
| "steps_left L74_set_freezing = 10"
| "steps_left L70_recalc_sigpending = 11"
| "steps_left L66_save = 12"
| "steps_left L64_unlock = 13"
| "steps_left L63_set_frozen = 14"
| "steps_left L61_lock = 15"
| "steps_left L199_try_to_freeze = 1"
| "steps_left L197_unlock = 2"
| "steps_left (L195_with_signal ws) = 3"
| "steps_left (L194_clear_nofreeze ws) = 4"
| "steps_left (L193_lock ws) = 5"

text \<open>The task after lines 194-196 of \<^verbatim>\<open>__set_freezable(ws)\<close>.\<close>

definition made_freezable :: "bool \<Rightarrow> task_struct \<Rightarrow> task_struct" where
  "made_freezable ws p =
     (if ws then clear_flag PF_FREEZER_NOSIG (clear_flag PF_NOFREEZE p)
      else clear_flag PF_NOFREEZE p)"

text \<open>Once line 81 has run, \<^verbatim>\<open>was_frozen\<close> is true and so is the value returned.\<close>

definition frozen_once :: "config \<Rightarrow> bool" where
  "frozen_once c =
     (in_refrigerator (pc c) \<and> (case pc c of Returned b \<Rightarrow> b | l \<Rightarrow> was_frozen c))"

text \<open>
  The window of a pass in which \<^verbatim>\<open>PF_FROZEN\<close> is set and \<^verbatim>\<open>PF_FREEZING\<close> is not yet, the
  wait loop, and the two labels before line 63 has run; the flags the task carries in
  the window, in the loop and up to the re-check.
\<close>

fun before_freezing :: "label \<Rightarrow> bool" where
  "before_freezing L64_unlock = True"
| "before_freezing L66_save = True"
| "before_freezing L70_recalc_sigpending = True"
| "before_freezing L74_set_freezing = True"
| "before_freezing l = False"

fun in_wait_loop :: "label \<Rightarrow> bool" where
  "in_wait_loop L77_set_state = True"
| "in_wait_loop L78_check = True"
| "in_wait_loop L81_was_frozen = True"
| "in_wait_loop L82_schedule = True"
| "in_wait_loop l = False"

fun at_entry :: "label \<Rightarrow> bool" where
  "at_entry L61_lock = True"
| "at_entry L63_set_frozen = True"
| "at_entry l = False"

definition parked_flags :: "config \<Rightarrow> bool" where
  "parked_flags c =
     (in_refrigerator (pc c)
      \<and> (before_freezing (pc c) \<or> in_wait_loop (pc c) \<or> past_loop (pc c)
            \<longrightarrow> frozen (cur c))
      \<and> (in_wait_loop (pc c) \<longrightarrow> test_flag PF_FREEZING (cur c)))"

text \<open>\<^verbatim>\<open>PF_FREEZING\<close> has been set at or before step \<open>n\<close> of the execution.\<close>

definition freezing_seen :: "(nat \<Rightarrow> env) \<Rightarrow> config \<Rightarrow> nat \<Rightarrow> bool" where
  "freezing_seen es c n = (\<exists>m\<le>n. test_flag PF_FREEZING (cur (exec es m c)))"

text \<open>
  The labels at which \<^verbatim>\<open>PF_NOFREEZE\<close> is known to be clear: after line 194, and inside
  \<^verbatim>\<open>__refrigerator\<close> when the caller has seen \<open>freezing\<close>.
\<close>

fun nofreeze_clear_at :: "label \<Rightarrow> bool" where
  "nofreeze_clear_at (L193_lock ws) = False"
| "nofreeze_clear_at (L194_clear_nofreeze ws) = False"
| "nofreeze_clear_at L199_try_to_freeze = False"
| "nofreeze_clear_at (Returned b) = False"
| "nofreeze_clear_at l = True"

definition nofreeze_inv :: "config \<Rightarrow> bool" where
  "nofreeze_inv c =
     (if nofreeze_clear_at (pc c) then \<not> test_flag PF_NOFREEZE (cur c)
      else test_flag PF_NOFREEZE (cur c) \<longrightarrow> \<not> frozen (cur c))"

section \<open>Flag words\<close>

lemma PF_bits:
  "PF_FREEZING = 2 ^ 14" "PF_NOFREEZE = 2 ^ 15" "PF_FROZEN = 2 ^ 16"
  "PF_FREEZER_NOSIG = 2 ^ 31"
  by (simp_all add: PF_FREEZING_def PF_NOFREEZE_def PF_FROZEN_def PF_FREEZER_NOSIG_def)

lemma and_mask_bit: "((x :: 32 word) AND 2 ^ n \<noteq> 0) = bit x n"
  by (simp add: and_exp_eq_0_iff_not_bit)

lemma bit_or_mask: "bit ((x :: 32 word) OR 2 ^ i) j = (bit x j \<or> (j = i \<and> i < 32))"
  by (auto simp add: bit_simps)

lemma bit_and_not_mask: "bit ((x :: 32 word) AND NOT (2 ^ i)) j = (bit x j \<and> j \<noteq> i)"
  by (auto simp add: bit_simps dest: bit_imp_le_length)

lemma test_set_flag:
  "test_flag (2 ^ j) (set_flag (2 ^ i) p) = (test_flag (2 ^ j) p \<or> (j = i \<and> i < 32))"
  by (simp add: test_flag_def set_flag_def and_mask_bit bit_or_mask)

lemma test_clear_flag:
  "test_flag (2 ^ j) (clear_flag (2 ^ i) p) = (test_flag (2 ^ j) p \<and> j \<noteq> i)"
  by (simp add: test_flag_def clear_flag_def and_mask_bit bit_and_not_mask)

lemma flag_other_fields:
  "state (set_flag m p) = state p" "state (clear_flag m p) = state p"
  "tif_sigpending (set_flag m p) = tif_sigpending p"
  "tif_sigpending (clear_flag m p) = tif_sigpending p"
  by (simp_all add: set_flag_def clear_flag_def)

lemma PF_set_flag:
  "test_flag PF_FROZEN (set_flag PF_FROZEN p)"
  "test_flag PF_FREEZING (set_flag PF_FROZEN p) = test_flag PF_FREEZING p"
  "test_flag PF_NOFREEZE (set_flag PF_FROZEN p) = test_flag PF_NOFREEZE p"
  "test_flag PF_FREEZER_NOSIG (set_flag PF_FROZEN p) = test_flag PF_FREEZER_NOSIG p"
  "test_flag PF_FREEZING (set_flag PF_FREEZING p)"
  "test_flag PF_FROZEN (set_flag PF_FREEZING p) = test_flag PF_FROZEN p"
  "test_flag PF_NOFREEZE (set_flag PF_FREEZING p) = test_flag PF_NOFREEZE p"
  "test_flag PF_FREEZER_NOSIG (set_flag PF_FREEZING p) = test_flag PF_FREEZER_NOSIG p"
  unfolding PF_bits test_set_flag by simp_all

lemma PF_clear_flag:
  "\<not> test_flag PF_FROZEN (clear_flag PF_FROZEN p)"
  "test_flag PF_FREEZING (clear_flag PF_FROZEN p) = test_flag PF_FREEZING p"
  "test_flag PF_NOFREEZE (clear_flag PF_FROZEN p) = test_flag PF_NOFREEZE p"
  "test_flag PF_FREEZER_NOSIG (clear_flag PF_FROZEN p) = test_flag PF_FREEZER_NOSIG p"
  "\<not> test_flag PF_FREEZING (clear_flag PF_FREEZING p)"
  "test_flag PF_FROZEN (clear_flag PF_FREEZING p) = test_flag PF_FROZEN p"
  "test_flag PF_NOFREEZE (clear_flag PF_FREEZING p) = test_flag PF_NOFREEZE p"
  "test_flag PF_FREEZER_NOSIG (clear_flag PF_FREEZING p) = test_flag PF_FREEZER_NOSIG p"
  "\<not> test_flag PF_NOFREEZE (clear_flag PF_NOFREEZE p)"
  "test_flag PF_FROZEN (clear_flag PF_NOFREEZE p) = test_flag PF_FROZEN p"
  "test_flag PF_FREEZING (clear_flag PF_NOFREEZE p) = test_flag PF_FREEZING p"
  "test_flag PF_FREEZER_NOSIG (clear_flag PF_NOFREEZE p) = test_flag PF_FREEZER_NOSIG p"
  "\<not> test_flag PF_FREEZER_NOSIG (clear_flag PF_FREEZER_NOSIG p)"
  "test_flag PF_FROZEN (clear_flag PF_FREEZER_NOSIG p) = test_flag PF_FROZEN p"
  "test_flag PF_FREEZING (clear_flag PF_FREEZER_NOSIG p) = test_flag PF_FREEZING p"
  "test_flag PF_NOFREEZE (clear_flag PF_FREEZER_NOSIG p) = test_flag PF_NOFREEZE p"
  unfolding PF_bits test_clear_flag by simp_all

lemma test_flag_prims:
  "test_flag m (recalc_sigpending e p) = test_flag m p"
  "test_flag m (set_current_state s p) = test_flag m p"
  "test_flag m (schedule p) = test_flag m p"
  by (simp_all add: test_flag_def recalc_sigpending_def set_current_state_def schedule_def)

lemmas cur_simps = PF_set_flag PF_clear_flag test_flag_prims

section \<open>The freeze predicate\<close>

text \<open>
  C2. For every task and every registry, \<open>freezing_slow_path\<close> computes the ordered logic
  of the specification: false when \<open>no_freeze\<close> is set; else true when \<open>nosig_freezing\<close>
  or the group predicate holds; else true when \<open>signaled_freezing\<close> holds and the task's
  \<open>freezer_nosig\<close> is clear; else false. In particular a task with \<open>freezer_nosig\<close> set,
  under a registry whose only freezing condition is \<open>signaled_freezing\<close> (no
  \<open>nosig_freezing\<close>, no group freeze), is not a freeze target, whatever the counter is.
\<close>

theorem freezing_slow_path_spec:
  "freezing_slow_path e p =
     should_freeze_spec (test_flag PF_NOFREEZE p) (test_flag PF_FREEZER_NOSIG p)
       (pm_freezing e) (pm_nosig_freezing e) (cgroup_freezing e)
   \<and> (test_flag PF_FREEZER_NOSIG p \<and> pm_freezing e \<and> \<not> pm_nosig_freezing e
        \<and> \<not> cgroup_freezing e
      \<longrightarrow> \<not> freezing_slow_path e p \<and> \<not> freezing e p)"
  by (simp add: freezing_slow_path_def should_freeze_spec_def freezing_def)

theorem freezing_slow_path_spec_witness:
  "test_flag PF_FREEZER_NOSIG (task0 0x80000000 1) \<and> pm_freezing pm_env
   \<and> \<not> pm_nosig_freezing pm_env \<and> \<not> cgroup_freezing pm_env
   \<and> \<not> freezing_slow_path pm_env (task0 0x80000000 1)
   \<and> \<not> freezing pm_env (task0 0x80000000 1)"
proof -
  have h: "test_flag PF_FREEZER_NOSIG (task0 0x80000000 1) \<and> pm_freezing pm_env
      \<and> \<not> pm_nosig_freezing pm_env \<and> \<not> cgroup_freezing pm_env"
    by (simp add: test_flag_def PF_FREEZER_NOSIG_def task0_def pm_env_def)
  with freezing_slow_path_spec [of pm_env "task0 0x80000000 1"] show ?thesis
    by blast
qed

text \<open>
  C7. A task whose \<open>no_freeze\<close> flag is set is never a freeze target and a freeze request
  on it returns false (and wakes nobody), for every state of the registry: any counter,
  any \<open>signaled_freezing\<close>, any \<open>nosig_freezing\<close>, any value of the group predicate.
\<close>

theorem no_freeze_never_target:
  "test_flag PF_NOFREEZE p \<Longrightarrow>
     \<not> freezing_slow_path e p \<and> \<not> freezing e p
     \<and> freeze_task e p = (False, p, [Spin_lock Freezer_lock, Spin_unlock Freezer_lock])"
  by (simp add: freezing_slow_path_def freezing_def freeze_task_def)

theorem no_freeze_never_target_witness:
  "test_flag PF_NOFREEZE (task0 0x8000 1)
   \<and> \<not> freezing_slow_path nosig_env (task0 0x8000 1)
   \<and> \<not> freezing nosig_env (task0 0x8000 1)
   \<and> fst (freeze_task nosig_env (task0 0x8000 1)) = False"
proof -
  have h: "test_flag PF_NOFREEZE (task0 0x8000 1)"
    by (simp add: test_flag_def PF_NOFREEZE_def task0_def)
  from no_freeze_never_target [OF h, of nosig_env] h show ?thesis
    by simp
qed

section \<open>Freeze request\<close>

lemma freeze_task_refused:
  "\<not> freezing e p \<or> frozen p \<Longrightarrow>
     freeze_task e p = (False, p, [Spin_lock Freezer_lock, Spin_unlock Freezer_lock])"
  by (simp add: freeze_task_def)

lemma freeze_task_signal:
  "freezing e p \<Longrightarrow> \<not> frozen p \<Longrightarrow> \<not> test_flag PF_FREEZER_NOSIG p \<Longrightarrow>
     freeze_task e p =
       (True, signal_wake_up p True,
        [Spin_lock Freezer_lock, Spin_lock Siglock, Signal_wake_up True, Spin_unlock Siglock,
         Spin_unlock Freezer_lock])"
  by (simp add: freeze_task_def should_send_signal_def fake_signal_wake_up_def)

lemma freeze_task_plain:
  "freezing e p \<Longrightarrow> \<not> frozen p \<Longrightarrow> test_flag PF_FREEZER_NOSIG p \<Longrightarrow>
     freeze_task e p =
       (True, wake_up_state p TASK_INTERRUPTIBLE,
        [Spin_lock Freezer_lock, Wake_up_state TASK_INTERRUPTIBLE, Spin_unlock Freezer_lock])"
  by (simp add: freeze_task_def should_send_signal_def)

text \<open>
  C3. \<open>freeze_task\<close> returns false exactly when, inside its \<open>freezer_lock\<close> section, the
  target is not a freeze target (\<open>freezing(p)\<close> is false) or is already frozen; then it
  wakes nobody. In every other case it returns true and the calls between taking and
  releasing the lock contain exactly one wake: the signal-like \<open>signal_wake_up\<close> (which
  sets the pending-signal marker) when the task's \<open>PF_FREEZER_NOSIG\<close> is clear, the plain
  \<open>wake_up_state\<close> for \<open>TASK_INTERRUPTIBLE\<close> when it is set. \<open>freezing(p)\<close> is the freeze
  predicate behind the counter of freezing conditions; whenever that counter is not
  zero, it is the ordered logic of \<open>freezing_slow_path\<close> itself.
\<close>

theorem freeze_task_result:
  "(fst (freeze_task e p) = False \<longleftrightarrow> \<not> freezing e p \<or> frozen p)
   \<and> hd (snd (snd (freeze_task e p))) = Spin_lock Freezer_lock
   \<and> last (snd (snd (freeze_task e p))) = Spin_unlock Freezer_lock
   \<and> (\<not> freezing e p \<or> frozen p \<longrightarrow>
        filter is_wake (snd (snd (freeze_task e p))) = [] \<and> fst (snd (freeze_task e p)) = p)
   \<and> (freezing e p \<and> \<not> frozen p \<and> \<not> test_flag PF_FREEZER_NOSIG p \<longrightarrow>
        fst (freeze_task e p) = True
        \<and> filter is_wake (snd (snd (freeze_task e p))) = [Signal_wake_up True]
        \<and> fst (snd (freeze_task e p)) = signal_wake_up p True
        \<and> tif_sigpending (fst (snd (freeze_task e p))))
   \<and> (freezing e p \<and> \<not> frozen p \<and> test_flag PF_FREEZER_NOSIG p \<longrightarrow>
        fst (freeze_task e p) = True
        \<and> filter is_wake (snd (snd (freeze_task e p))) = [Wake_up_state TASK_INTERRUPTIBLE]
        \<and> fst (snd (freeze_task e p)) = wake_up_state p TASK_INTERRUPTIBLE)
   \<and> (system_freezing_cnt e \<noteq> 0 \<longrightarrow>
        (fst (freeze_task e p) = False \<longleftrightarrow> \<not> freezing_slow_path e p \<or> frozen p))"
  (is "?ret \<and> ?first \<and> ?last \<and> ?refused \<and> ?signal \<and> ?plain \<and> ?slow")
proof -
  have ret: ?ret
    by (simp add: freeze_task_def)
  have "?first \<and> ?last \<and> ?refused \<and> ?signal \<and> ?plain"
  proof (cases "\<not> freezing e p \<or> frozen p")
    case True
    then show ?thesis
      using freeze_task_refused [of e p] by auto
  next
    case False
    then have fz: "freezing e p" and nf: "\<not> frozen p"
      by auto
    show ?thesis
    proof (cases "test_flag PF_FREEZER_NOSIG p")
      case True
      then show ?thesis
        using freeze_task_plain [OF fz nf] fz nf by simp
    next
      case False
      then show ?thesis
        using freeze_task_signal [OF fz nf] fz nf
        by (simp add: signal_wake_up_def wake_up_state_def)
    qed
  qed
  moreover from ret have ?slow
    by (simp add: freezing_def)
  ultimately show ?thesis
    using ret by blast
qed

theorem freeze_task_result_witness:
  "freezing pm_env (task0 0 1) \<and> \<not> frozen (task0 0 1)
   \<and> \<not> test_flag PF_FREEZER_NOSIG (task0 0 1)
   \<and> fst (freeze_task pm_env (task0 0 1)) = True
   \<and> filter is_wake (snd (snd (freeze_task pm_env (task0 0 1)))) = [Signal_wake_up True]
   \<and> freezing nosig_env (task0 0x80010000 1) \<and> frozen (task0 0x80010000 1)
   \<and> fst (freeze_task nosig_env (task0 0x80010000 1)) = False"
proof -
  have h: "freezing pm_env (task0 0 1) \<and> \<not> frozen (task0 0 1)
      \<and> \<not> test_flag PF_FREEZER_NOSIG (task0 0 1)"
    by (simp add: freezing_def freezing_slow_path_def frozen_def test_flag_def task0_def
        pm_env_def)
  have g: "frozen (task0 0x80010000 1)"
    by (simp add: frozen_def test_flag_def task0_def PF_FROZEN_def)
  have g': "freezing nosig_env (task0 0x80010000 1)"
    by (simp add: freezing_def freezing_slow_path_def test_flag_def task0_def nosig_env_def
        PF_NOFREEZE_def)
  from freeze_task_result [of pm_env "task0 0 1"]
    freeze_task_result [of nosig_env "task0 0x80010000 1"] h g g'
  show ?thesis
    by simp
qed

section \<open>Thaw\<close>

lemma frozen_wake_up_process: "frozen (wake_up_process p) = frozen p"
  by (simp add: frozen_def wake_up_process_def test_flag_def)

lemma frozen_recalc: "frozen (recalc_sigpending_and_wake e p) = frozen p"
  by (simp add: frozen_def recalc_sigpending_and_wake_def test_flag_def)

text \<open>
  C8. \<open>__thaw_task\<close> is idempotent: for every task and every environment, thawing twice
  in a row leaves the task in the state one thaw leaves it in. It never touches the flag
  word, and on a task that is not frozen it changes nothing but the pending-signal
  marker, which it recomputes.
\<close>

theorem thaw_task_idempotent:
  "fst (uu_thaw_task e (fst (uu_thaw_task e p))) = fst (uu_thaw_task e p)
   \<and> flags (fst (uu_thaw_task e p)) = flags p
   \<and> (\<not> frozen p \<longrightarrow>
        fst (uu_thaw_task e p) = p\<lparr>tif_sigpending := signals_pending e\<rparr>)"
proof (cases "frozen p")
  case True
  then show ?thesis
    by (simp add: uu_thaw_task_def frozen_wake_up_process) (simp add: wake_up_process_def)
next
  case False
  then show ?thesis
    by (simp add: uu_thaw_task_def frozen_recalc) (simp add: recalc_sigpending_and_wake_def)
qed

theorem thaw_task_idempotent_witness:
  "\<not> frozen (task0 0 1)
   \<and> fst (uu_thaw_task idle_env (fst (uu_thaw_task idle_env (task0 0 1))))
       = fst (uu_thaw_task idle_env (task0 0 1))
   \<and> fst (uu_thaw_task idle_env (task0 0 1)) = task0 0 1
   \<and> fst (uu_thaw_task idle_env (fst (uu_thaw_task idle_env (task0 0x10000 2))))
       = fst (uu_thaw_task idle_env (task0 0x10000 2))"
proof -
  have h: "\<not> frozen (task0 0 1)"
    by (simp add: frozen_def test_flag_def task0_def)
  from thaw_task_idempotent [of idle_env "task0 0 1"]
    thaw_task_idempotent [of idle_env "task0 0x10000 2"] h
  show ?thesis
    by (simp add: task0_def idle_env_def)
qed

section \<open>Calls of the coordinator\<close>

lemma coordinator_call_flags: "flags (coordinator_call e op p) = flags p"
  by (cases op)
    (simp_all add: coordinator_call_def freeze_task_def fake_signal_wake_up_def
      signal_wake_up_def wake_up_state_def uu_thaw_task_def wake_up_process_def
      recalc_sigpending_and_wake_def)

lemma coordinator_calls_flags: "flags (coordinator_calls e ops p) = flags p"
  by (induction ops arbitrary: p) (simp_all add: coordinator_call_flags)

lemma test_flag_flags: "flags p = flags q \<Longrightarrow> test_flag m p = test_flag m q"
  by (simp add: test_flag_def)

lemma coordinator_call_any:
  "unint_or_running (state p) \<Longrightarrow> unint_or_running (state (coordinator_call e op p))"
  by (cases op)
    (auto simp add: coordinator_call_def freeze_task_def fake_signal_wake_up_def
      signal_wake_up_def wake_up_state_def uu_thaw_task_def wake_up_process_def
      recalc_sigpending_and_wake_def unint_or_running_def)

lemma coordinator_calls_any:
  "unint_or_running (state p) \<Longrightarrow> unint_or_running (state (coordinator_calls e ops p))"
  by (induction ops arbitrary: p) (simp_all add: coordinator_call_any)

lemma unint_no_interruptible: "TASK_UNINTERRUPTIBLE AND TASK_INTERRUPTIBLE = 0"
  by (simp add: TASK_UNINTERRUPTIBLE_def TASK_INTERRUPTIBLE_def)

lemma coordinator_call_unint:
  "state p = TASK_UNINTERRUPTIBLE \<Longrightarrow> op \<noteq> Thaw_task \<or> \<not> frozen p \<Longrightarrow>
     state (coordinator_call e op p) = TASK_UNINTERRUPTIBLE"
  by (cases op)
    (auto simp add: coordinator_call_def freeze_task_def fake_signal_wake_up_def
      signal_wake_up_def wake_up_state_def uu_thaw_task_def
      recalc_sigpending_and_wake_def unint_no_interruptible)

lemma coordinator_calls_unint:
  "state p = TASK_UNINTERRUPTIBLE \<Longrightarrow> Thaw_task \<notin> set ops \<or> \<not> frozen p \<Longrightarrow>
     state (coordinator_calls e ops p) = TASK_UNINTERRUPTIBLE"
proof (induction ops arbitrary: p)
  case Nil
  then show ?case by simp
next
  case (Cons op ops)
  have "frozen (coordinator_call e op p) = frozen p"
    unfolding frozen_def by (rule test_flag_flags) (rule coordinator_call_flags)
  with Cons.prems have "Thaw_task \<notin> set ops \<or> \<not> frozen (coordinator_call e op p)"
    by auto
  moreover from Cons.prems have "state (coordinator_call e op p) = TASK_UNINTERRUPTIBLE"
    by (intro coordinator_call_unint) auto
  ultimately show ?case
    using Cons.IH by simp
qed


lemma freezing_flags: "flags p = flags q \<Longrightarrow> freezing e p = freezing e q"
  by (simp add: freezing_def freezing_slow_path_def test_flag_def)

lemma frozen_flags: "flags p = flags q \<Longrightarrow> frozen p = frozen q"
  by (simp add: frozen_def test_flag_def)


subsection \<open>Landing on the running task\<close>

lemma deliver_fields:
  "pc (deliver e c) = pc c" "lock_held (deliver e c) = lock_held c"
  "check_kthr_stop (deliver e c) = check_kthr_stop c" "was_frozen (deliver e c) = was_frozen c"
  "save (deliver e c) = save c"
  by (simp_all add: deliver_def split: label.splits)

lemma deliver_flags: "flags (cur (deliver e c)) = flags (cur c)"
  by (simp add: deliver_def coordinator_calls_flags split: label.splits)

lemma deliver_test_flag: "test_flag m (cur (deliver e c)) = test_flag m (cur c)"
  by (rule test_flag_flags) (rule deliver_flags)

lemma deliver_frozen: "frozen (cur (deliver e c)) = frozen (cur c)"
  by (rule frozen_flags) (rule deliver_flags)

lemma deliver_freezing: "freezing e' (cur (deliver e c)) = freezing e' (cur c)"
  by (rule freezing_flags) (rule deliver_flags)

lemma deliver_locked: "lock_held c \<Longrightarrow> deliver e c = c"
  by (simp add: deliver_def split: label.splits)

lemma deliver_returned: "pc c = Returned b \<Longrightarrow> deliver e c = c"
  by (simp add: deliver_def)


lemma deliver_any:
  "unint_or_running (state (cur c)) \<Longrightarrow> unint_or_running (state (cur (deliver e c)))"
  by (simp add: deliver_def coordinator_calls_any split: label.splits)

lemma deliver_unint:
  "state (cur c) = TASK_UNINTERRUPTIBLE \<Longrightarrow>
   Thaw_task \<notin> set (coordinator e) \<or> \<not> frozen (cur c) \<Longrightarrow>
     state (cur (deliver e c)) = TASK_UNINTERRUPTIBLE"
  by (simp add: deliver_def coordinator_calls_unint split: label.splits)


lemmas deliver_simps = deliver_fields deliver_test_flag deliver_frozen deliver_freezing

section \<open>Executions of the machine\<close>

lemma exec_add: "exec es (n + k) c = exec (\<lambda>i. es (n + i)) k (exec es n c)"
  by (induction k) simp_all

lemma returned_stays: "pc c = Returned b \<Longrightarrow> exec es n c = c"
  by (induction n) (simp_all add: step_def deliver_returned)

lemma returned_later: "pc (exec es n c) = Returned b \<Longrightarrow> exec es (n + k) c = exec es n c"
  unfolding exec_add [of es n k] by (rule returned_stays)

lemma state_prims:
  "state (recalc_sigpending e p) = state p"
  "state (set_current_state s p) = s"
  "state (schedule p) = TASK_RUNNING"
  by (simp_all add: recalc_sigpending_def set_current_state_def schedule_def)

subsection \<open>The lock\<close>

lemma lock_step:
  "lock_held c = holds_lock (pc c) \<Longrightarrow> lock_held (step e c) = holds_lock (pc (step e c))"
  by (cases "pc c") (simp_all add: step_def)

lemma lock_exec:
  "lock_held c = holds_lock (pc c) \<Longrightarrow>
     lock_held (exec es n c) = holds_lock (pc (exec es n c))"
  by (induction n) (simp_all add: lock_step deliver_fields)

subsection \<open>What the refrigerator leaves alone\<close>

lemma same_target_freezing: "same_target p q \<Longrightarrow> freezing e p = freezing e q"
  by (simp add: same_target_def freezing_def freezing_slow_path_def)

lemma in_refrigerator_step:
  "in_refrigerator (pc c) \<Longrightarrow> in_refrigerator (pc (step e c))"
  by (cases "pc c") (simp_all add: step_def)

lemma same_target_step:
  "in_refrigerator (pc c) \<Longrightarrow> same_target (cur (step e c)) (cur c)"
  by (cases "pc c") (simp_all add: step_def same_target_def cur_simps)

lemma refrigerator_frame:
  "in_refrigerator (pc c) \<Longrightarrow>
     in_refrigerator (pc (exec es n c)) \<and> same_target (cur (exec es n c)) (cur c)"
proof (induction n)
  case 0
  then show ?case by (simp add: same_target_def)
next
  case (Suc n)
  let ?d = "deliver (es n) (exec es n c)"
  from Suc have a: "in_refrigerator (pc ?d)" and b: "same_target (cur ?d) (cur c)"
    by (simp_all add: deliver_fields same_target_def deliver_test_flag)
  from same_target_step [OF a, of "es n"] b in_refrigerator_step [OF a, of "es n"]
  show ?case
    by (simp add: same_target_def)
qed



subsection \<open>One pass from line 63\<close>

lemma reentry_pass:
  assumes "pc d = L63_set_frozen" "lock_held d"
  shows "map (\<lambda>k. pc (exec es k d)) [0, 1, 2, 3, 4, 5, 6]
            = [L63_set_frozen, L64_unlock, L66_save, L70_recalc_sigpending,
               L74_set_freezing, L77_set_state, L78_check]"
    and "list_all (\<lambda>k. frozen (cur (exec es k d))) [1, 2, 3, 4, 5, 6]"
    and "save (exec es 3 d) = state (cur (deliver (es 2) (exec es 2 d)))"
    and "state (cur (exec es 2 d)) = state (cur d)"
  using assms
  by (simp_all add: eval_nat_numeral step_def frozen_def cur_simps flag_other_fields
      deliver_simps deliver_locked)

lemma first_check:
  "pc (exec es 7 (refrigerator_entry chk p sv)) = L78_check"
  "check_kthr_stop (exec es 7 (refrigerator_entry chk p sv)) = chk"
  by (simp_all add: eval_nat_numeral step_def refrigerator_entry_def deliver_simps)

subsection \<open>Clearing the frozen flag\<close>

lemma unfreeze_step:
  "frozen (cur c) \<Longrightarrow> \<not> frozen (cur (step e c)) \<Longrightarrow> pc c = L92_clear_frozen"
  by (cases "pc c") (auto simp add: step_def frozen_def cur_simps split: if_splits)

lemma before_L92:
  "pc (step e c) = L92_clear_frozen \<Longrightarrow>
     pc c = L90_recheck \<and> \<not> freezing e (cur c) \<and> cur (step e c) = cur c"
  by (cases "pc c") (auto simp add: step_def split: if_splits)

subsection \<open>The flags along a pass\<close>

lemma parked_flags_step: "parked_flags c \<Longrightarrow> parked_flags (step e c)"
  by (cases "pc c") (simp_all add: parked_flags_def step_def frozen_def cur_simps)

lemma parked_flags_deliver: "parked_flags c \<Longrightarrow> parked_flags (deliver e c)"
  by (simp add: parked_flags_def deliver_simps)

lemma parked_flags_exec: "parked_flags c \<Longrightarrow> parked_flags (exec es n c)"
  by (induction n) (simp_all add: parked_flags_step parked_flags_deliver)

lemma exit_flags_step: "exit_flags c \<Longrightarrow> exit_flags (step e c)"
  by (cases "pc c") (simp_all add: exit_flags_def step_def frozen_def cur_simps)

lemma exit_flags_deliver: "exit_flags c \<Longrightarrow> exit_flags (deliver e c)"
  by (simp add: exit_flags_def deliver_simps)

lemma exit_flags_exec: "exit_flags c \<Longrightarrow> exit_flags (exec es n c)"
  by (induction n) (simp_all add: exit_flags_step exit_flags_deliver)

lemma freezing_seen_Suc: "freezing_seen es c n \<Longrightarrow> freezing_seen es c (Suc n)"
  unfolding freezing_seen_def using le_Suc_eq by blast

lemma freezing_seen_now:
  "test_flag PF_FREEZING (cur (exec es n c)) \<Longrightarrow> freezing_seen es c n"
  unfolding freezing_seen_def by blast

lemma seen_step:
  assumes "in_refrigerator (pc c)"
    and "at_entry (pc c) \<and> frozen (cur c) \<longrightarrow> S"
    and "\<not> at_entry (pc c) \<and> \<not> before_freezing (pc c) \<longrightarrow> S"
  shows "(at_entry (pc (step e c)) \<and> frozen (cur (step e c)) \<longrightarrow> S)
    \<and> (\<not> at_entry (pc (step e c)) \<and> \<not> before_freezing (pc (step e c))
          \<longrightarrow> S \<or> test_flag PF_FREEZING (cur (step e c)))"
  using assms by (cases "pc c") (auto simp add: step_def frozen_def cur_simps)

lemma freezing_not_nofreeze: "freezing e p \<Longrightarrow> \<not> test_flag PF_NOFREEZE p"
  by (simp add: freezing_def freezing_slow_path_def split: if_splits)

lemma nofreeze_inv_step: "nofreeze_inv c \<Longrightarrow> nofreeze_inv (step e c)"
  by (cases "pc c")
    (auto simp add: nofreeze_inv_def step_def frozen_def cur_simps dest: freezing_not_nofreeze)

lemma nofreeze_inv_deliver: "nofreeze_inv c \<Longrightarrow> nofreeze_inv (deliver e c)"
  by (simp add: nofreeze_inv_def deliver_simps)

lemma nofreeze_inv_exec: "nofreeze_inv c \<Longrightarrow> nofreeze_inv (exec es n c)"
  by (induction n) (simp_all add: nofreeze_inv_step nofreeze_inv_deliver)

lemma nofreeze_inv_holds:
  "nofreeze_inv c \<Longrightarrow> test_flag PF_NOFREEZE (cur c) \<longrightarrow> \<not> frozen (cur c)"
  by (simp add: nofreeze_inv_def split: if_splits)

subsection \<open>The task state\<close>

lemma state_props: "unint_or_running TASK_UNINTERRUPTIBLE" "is_unint TASK_UNINTERRUPTIBLE"
  by (simp_all add: unint_or_running_def is_unint_def)

lemma check_state_step:
  "check_state P c \<Longrightarrow> P TASK_UNINTERRUPTIBLE \<Longrightarrow> check_state P (step e c)"
  by (cases "pc c") (simp_all add: check_state_def step_def state_prims flag_other_fields)

lemma check_state_deliver_any:
  "check_state unint_or_running c \<Longrightarrow> check_state unint_or_running (deliver e c)"
  by (simp add: check_state_def deliver_fields deliver_any)

lemma check_state_deliver_unint:
  assumes "check_state is_unint c" "lock_held c = holds_lock (pc c)"
    and "thaw_sensitive (pc c) \<longrightarrow> Thaw_task \<notin> set (coordinator e)"
  shows "check_state is_unint (deliver e c)"
  using assms
  by (cases "pc c")
    (simp_all add: check_state_def is_unint_def deliver_fields deliver_unint deliver_locked)

lemma reentered_step: "reentered P c \<Longrightarrow> P TASK_UNINTERRUPTIBLE \<Longrightarrow> reentered P (step e c)"
  by (cases "pc c")
    (simp_all add: step_def state_prims flag_other_fields frozen_def cur_simps)

lemma reentered_deliver_any:
  "reentered unint_or_running c \<Longrightarrow> reentered unint_or_running (deliver e c)"
  by (cases "pc c") (simp_all add: deliver_simps deliver_any)

lemma reentered_deliver_unint:
  assumes "reentered is_unint c" "lock_held c = holds_lock (pc c)"
    and "thaw_sensitive (pc c) \<longrightarrow> Thaw_task \<notin> set (coordinator e)"
  shows "reentered is_unint (deliver e c)"
  using assms
  by (cases "pc c")
    (simp_all add: is_unint_def deliver_simps deliver_unint deliver_locked deliver_returned)

lemma reentered_returned: "reentered P c \<Longrightarrow> pc c = Returned b \<Longrightarrow> P (state (cur c))"
  by simp

lemma reentered_saved: "reentered P c \<Longrightarrow> pc c = L70_recalc_sigpending \<Longrightarrow> P (save c)"
  by simp

lemma reentered_start: "pc c = L63_set_frozen \<Longrightarrow> reentered P c = P (state (cur c))"
  by simp




subsection \<open>Returning\<close>

lemma steps_left_step:
  "\<not> freezing e (cur c) \<Longrightarrow> steps_left (pc c) \<noteq> 0 \<Longrightarrow>
     steps_left (pc (step e c)) < steps_left (pc c)"
  by (cases "pc c") (simp_all add: step_def)

lemma returned_iff: "(steps_left l = 0) = (\<exists>b. l = Returned b)"
  by (cases l) simp_all

text \<open>
  Once the task sees no freezing condition any more, it returns: every statement brings
  it closer to the return, so the function is total on such executions.
\<close>

lemma returns_when_quiet:
  assumes quiet: "\<And>i. N \<le> i \<Longrightarrow> \<not> freezing (es i) (cur (exec es i c))"
  shows "\<exists>n b. pc (exec es n c) = Returned b"
proof -
  have "N \<le> i \<Longrightarrow> steps_left (pc (exec es i c)) = d \<Longrightarrow> \<exists>n b. pc (exec es n c) = Returned b"
    for i d
  proof (induction d arbitrary: i rule: less_induct)
    case (less d)
    show ?case
    proof (cases "d = 0")
      case True
      with less.prems(2) show ?thesis
        using returned_iff [of "pc (exec es i c)"] by auto
    next
      case False
      let ?d = "deliver (es i) (exec es i c)"
      have "\<not> freezing (es i) (cur ?d)" "steps_left (pc ?d) \<noteq> 0"
        using quiet [OF less.prems(1)] False less.prems(2) by (simp_all add: deliver_simps)
      from steps_left_step [OF this] less.prems(2)
      have "steps_left (pc (exec es (Suc i) c)) < d"
        by (simp add: deliver_fields)
      moreover have "N \<le> Suc i"
        using less.prems(1) by simp
      ultimately show ?thesis
        using less.IH by blast
    qed
  qed
  then show ?thesis
    by blast
qed

lemma frozen_once_step: "frozen_once c \<Longrightarrow> frozen_once (step e c)"
  by (cases "pc c") (simp_all add: frozen_once_def step_def)

lemma frozen_once_deliver: "frozen_once c \<Longrightarrow> frozen_once (deliver e c)"
  by (simp add: frozen_once_def deliver_fields split: label.splits)

lemma frozen_once_exec: "frozen_once c \<Longrightarrow> frozen_once (exec es n c)"
  by (induction n) (simp_all add: frozen_once_step frozen_once_deliver)

text \<open>The first pass of \<open>__refrigerator\<close> up to its first check of the wait loop.\<close>

lemma first_pass:
  "map (\<lambda>k. pc (exec es k (refrigerator_entry chk p sv))) [0, 1, 2, 3, 4, 5, 6, 7]
     = [L61_lock, L63_set_frozen, L64_unlock, L66_save, L70_recalc_sigpending,
        L74_set_freezing, L77_set_state, L78_check]"
  "list_all (\<lambda>k. frozen (cur (exec es k (refrigerator_entry chk p sv)))) [2, 3, 4, 5, 6, 7]"
  "save (exec es 4 (refrigerator_entry chk p sv))
     = state (cur (deliver (es 3) (exec es 3 (refrigerator_entry chk p sv))))"
  by (simp_all add: eval_nat_numeral step_def refrigerator_entry_def deliver_simps frozen_def
      cur_simps)


text \<open>
  When the first check of the wait loop finds the task a freeze target, the task goes
  on to \<open>schedule()\<close> with both flags set.
\<close>

lemma parks:
  assumes first: "freezing (es 7) p" "\<not> (chk \<and> kthread_should_stop (es 7))"
  shows "pc (exec es 8 (refrigerator_entry chk p sv)) = L81_was_frozen"
    and "pc (exec es 9 (refrigerator_entry chk p sv)) = L82_schedule"
    and "was_frozen (exec es 9 (refrigerator_entry chk p sv))"
    and "frozen (cur (exec es 9 (refrigerator_entry chk p sv)))"
    and "test_flag PF_FREEZING (cur (exec es 9 (refrigerator_entry chk p sv)))"
proof -
  let ?init = "refrigerator_entry chk p sv"
  let ?c = "\<lambda>i. exec es i ?init"
  have r0: "in_refrigerator (pc ?init)" and cur0: "cur ?init = p"
    by (simp_all add: refrigerator_entry_def)
  have "same_target (cur (?c 7)) p"
    using refrigerator_frame [OF r0, of es 7] cur0 by simp
  then have fz: "freezing (es 7) (cur (?c 7)) = freezing (es 7) p"
    by (rule same_target_freezing)
  have e8: "?c 8 = step (es 7) (deliver (es 7) (?c 7))"
    and e9: "?c 9 = step (es 8) (deliver (es 8) (?c 8))"
    by (simp_all add: eval_nat_numeral)
  show p8: "pc (?c 8) = L81_was_frozen"
    unfolding e8 using first first_check [of es chk p sv] fz
    by (simp add: step_def deliver_simps)
  show p9: "pc (?c 9) = L82_schedule" and "was_frozen (?c 9)"
    unfolding e9 using p8 by (simp_all add: step_def deliver_simps)
  have "parked_flags (?c 9)"
    by (rule parked_flags_exec) (simp add: parked_flags_def refrigerator_entry_def)
  with p9 show "frozen (cur (?c 9))" "test_flag PF_FREEZING (cur (?c 9))"
    by (simp_all add: parked_flags_def)
qed

lemma refrigerator_parked:
  assumes first: "freezing (es 7) p" "\<not> (chk \<and> kthread_should_stop (es 7))"
  shows "frozen_once (exec es (9 + n) (refrigerator_entry chk p sv))"
proof -
  have "frozen_once (exec es 9 (refrigerator_entry chk p sv))"
    using parks(2,3) [of es p chk sv] first by (simp add: frozen_once_def)
  then show ?thesis
    unfolding exec_add [of es 9 n] by (rule frozen_once_exec)
qed

lemma refrigerator_returns_only_true:
  assumes first: "freezing (es 7) p" "\<not> (chk \<and> kthread_should_stop (es 7))"
    and ret: "pc (exec es n (refrigerator_entry chk p sv)) = Returned b"
  shows "b" and "9 < n"
proof -
  have "frozen_once (exec es (n + 9) (refrigerator_entry chk p sv))"
    using refrigerator_parked [of es p chk n sv] first by (simp add: add.commute)
  then have "frozen_once (exec es n (refrigerator_entry chk p sv))"
    unfolding returned_later [OF ret] .
  with ret show "b"
    by (simp add: frozen_once_def)
  show "9 < n"
  proof (rule ccontr)
    assume "\<not> 9 < n"
    then obtain k where "9 = n + k"
      using le_Suc_ex [of n 9] by auto
    with returned_later [OF ret, of k] ret
    have "pc (exec es 9 (refrigerator_entry chk p sv)) = Returned b"
      by simp
    with parks(2) [of es p chk sv] first show False
      by simp
  qed
qed

lemma refrigerator_exit_flags:
  assumes "pc (exec es n (refrigerator_entry chk p sv)) = Returned b"
  shows "\<not> frozen (cur (exec es n (refrigerator_entry chk p sv)))"
    and "\<not> test_flag PF_FREEZING (cur (exec es n (refrigerator_entry chk p sv)))"
proof -
  have "exit_flags (exec es n (refrigerator_entry chk p sv))"
    by (rule exit_flags_exec) (simp add: exit_flags_def refrigerator_entry_def)
  with assms show "\<not> frozen (cur (exec es n (refrigerator_entry chk p sv)))"
    "\<not> test_flag PF_FREEZING (cur (exec es n (refrigerator_entry chk p sv)))"
    by (simp_all add: exit_flags_def)
qed

lemma refrigerator_returns:
  assumes ended: "\<forall>i\<ge>N. \<not> freezing (es i) p"
  shows "\<exists>n b. pc (exec es n (refrigerator_entry chk p sv)) = Returned b"
proof (rule returns_when_quiet)
  fix i assume "N \<le> i"
  have "in_refrigerator (pc (refrigerator_entry chk p sv))"
    by (simp add: refrigerator_entry_def)
  from refrigerator_frame [OF this, of es i]
  have "same_target (cur (exec es i (refrigerator_entry chk p sv))) p"
    by (simp add: refrigerator_entry_def)
  from same_target_freezing [OF this] ended \<open>N \<le> i\<close>
  show "\<not> freezing (es i) (cur (exec es i (refrigerator_entry chk p sv)))"
    by simp
qed

subsection \<open>Registration\<close>

lemma made_freezable_flags:
  "\<not> test_flag PF_NOFREEZE (made_freezable ws p)"
  "test_flag PF_FREEZER_NOSIG (made_freezable ws p) = (\<not> ws \<and> test_flag PF_FREEZER_NOSIG p)"
  "test_flag PF_FROZEN (made_freezable ws p) = test_flag PF_FROZEN p"
  "test_flag PF_FREEZING (made_freezable ws p) = test_flag PF_FREEZING p"
  by (simp_all add: made_freezable_def cur_simps)

lemma made_freezable_cong:
  "flags q = flags p \<Longrightarrow> flags (made_freezable ws q) = flags (made_freezable ws p)"
  by (simp add: made_freezable_def clear_flag_def)

lemma clear_flag_cong: "flags q = flags p \<Longrightarrow> flags (clear_flag m q) = flags (clear_flag m p)"
  by (simp add: clear_flag_def)

lemma set_freezable_prefix:
  "lock_held (exec es 1 (set_freezable_entry ws p sv))"
  "flags (cur (exec es 1 (set_freezable_entry ws p sv))) = flags p"
  "lock_held (exec es 2 (set_freezable_entry ws p sv))"
  "flags (cur (exec es 2 (set_freezable_entry ws p sv))) = flags (clear_flag PF_NOFREEZE p)"
  "lock_held (exec es 3 (set_freezable_entry ws p sv))"
  "flags (cur (exec es 3 (set_freezable_entry ws p sv))) = flags (made_freezable ws p)"
  "exec es 4 (set_freezable_entry ws p sv)
     = try_to_freeze_entry (cur (exec es 4 (set_freezable_entry ws p sv))) sv"
  "flags (cur (exec es 4 (set_freezable_entry ws p sv))) = flags (made_freezable ws p)"
proof -
  let ?d = "deliver (es 0) (set_freezable_entry ws p sv)"
  have f: "flags (cur ?d) = flags p"
    by (simp add: deliver_flags set_freezable_entry_def)
  have d: "pc ?d = L193_lock ws" "\<not> lock_held ?d" "check_kthr_stop ?d = False"
    "was_frozen ?d = False" "save ?d = sv"
    by (simp_all add: deliver_fields set_freezable_entry_def)
  have s1: "exec es 1 (set_freezable_entry ws p sv) = step (es 0) ?d"
    by simp
  have s2: "exec es 2 (set_freezable_entry ws p sv)
      = step (es 1) (deliver (es 1) (exec es 1 (set_freezable_entry ws p sv)))"
    and s3: "exec es 3 (set_freezable_entry ws p sv)
      = step (es 2) (deliver (es 2) (exec es 2 (set_freezable_entry ws p sv)))"
    and s4: "exec es 4 (set_freezable_entry ws p sv)
      = step (es 3) (deliver (es 3) (exec es 3 (set_freezable_entry ws p sv)))"
    by (simp_all add: eval_nat_numeral)
  have one: "exec es 1 (set_freezable_entry ws p sv)
      = ?d\<lparr>pc := L194_clear_nofreeze ws, lock_held := True\<rparr>"
    unfolding s1 using d by (simp add: step_def)
  have two: "exec es 2 (set_freezable_entry ws p sv)
      = ?d\<lparr>pc := L195_with_signal ws, lock_held := True,
            cur := clear_flag PF_NOFREEZE (cur ?d)\<rparr>"
    unfolding s2 one by (simp add: step_def deliver_locked)
  have three: "exec es 3 (set_freezable_entry ws p sv)
      = ?d\<lparr>pc := L197_unlock, lock_held := True, cur := made_freezable ws (cur ?d)\<rparr>"
    unfolding s3 two by (simp add: step_def deliver_locked made_freezable_def)
  have four: "exec es 4 (set_freezable_entry ws p sv)
      = ?d\<lparr>pc := L199_try_to_freeze, lock_held := False,
            cur := made_freezable ws (cur ?d)\<rparr>"
    unfolding s4 three by (simp add: step_def deliver_locked)
  show "lock_held (exec es 1 (set_freezable_entry ws p sv))"
    "flags (cur (exec es 1 (set_freezable_entry ws p sv))) = flags p"
    unfolding one using f by simp_all
  show "lock_held (exec es 2 (set_freezable_entry ws p sv))"
    "flags (cur (exec es 2 (set_freezable_entry ws p sv))) = flags (clear_flag PF_NOFREEZE p)"
    unfolding two using clear_flag_cong [OF f] by simp_all
  show "lock_held (exec es 3 (set_freezable_entry ws p sv))"
    "flags (cur (exec es 3 (set_freezable_entry ws p sv))) = flags (made_freezable ws p)"
    unfolding three using made_freezable_cong [OF f] by simp_all
  show "exec es 4 (set_freezable_entry ws p sv)
     = try_to_freeze_entry (cur (exec es 4 (set_freezable_entry ws p sv))) sv"
    "flags (cur (exec es 4 (set_freezable_entry ws p sv))) = flags (made_freezable ws p)"
    unfolding four using made_freezable_cong [OF f] d
    by (simp_all add: try_to_freeze_entry_def)
qed

lemma try_to_freeze_turn:
  "step e (deliver e (try_to_freeze_entry p sv)) =
     (if freezing e p
      then refrigerator_entry False (cur (deliver e (try_to_freeze_entry p sv))) sv
      else (deliver e (try_to_freeze_entry p sv))\<lparr>pc := Returned False\<rparr>)"
proof -
  let ?d = "deliver e (try_to_freeze_entry p sv)"
  have d: "pc ?d = L199_try_to_freeze" "\<not> lock_held ?d" "check_kthr_stop ?d = False"
    "was_frozen ?d = False" "save ?d = sv" "freezing e (cur ?d) = freezing e p"
    by (simp_all add: deliver_simps try_to_freeze_entry_def)
  show ?thesis
    using d by (simp add: step_def refrigerator_entry_def)
qed

section \<open>The refrigerator\<close>

text \<open>
  C1. In every execution of \<open>__refrigerator\<close>, a step clears the frozen flag only at
  line 92, with \<open>freezer_lock\<close> held, right after the step of line 90 has evaluated
  \<open>freezing(current)\<close> to false under that same holding of the lock, on the task as it is
  when the flag is cleared. When the re-check of line 90 finds \<open>freezing(current)\<close> true,
  the flag is not cleared: with the lock still held the task goes back to line 63 and
  runs the whole procedure again (set frozen, unlock, save the state, recompute the
  pending signal, set freezing, the wait loop), frozen all along.
\<close>

theorem frozen_cleared_only_after_recheck:
  "(frozen (cur (exec es n (refrigerator_entry chk p sv)))
      \<and> \<not> frozen (cur (exec es (Suc n) (refrigerator_entry chk p sv)))
    \<longrightarrow> pc (exec es n (refrigerator_entry chk p sv)) = L92_clear_frozen
        \<and> lock_held (exec es n (refrigerator_entry chk p sv))
        \<and> (\<exists>m. n = Suc m
             \<and> pc (exec es m (refrigerator_entry chk p sv)) = L90_recheck
             \<and> lock_held (exec es m (refrigerator_entry chk p sv))
             \<and> cur (exec es m (refrigerator_entry chk p sv))
                 = cur (exec es n (refrigerator_entry chk p sv))
             \<and> \<not> freezing (es m) (cur (exec es n (refrigerator_entry chk p sv)))))
   \<and> (pc (exec es n (refrigerator_entry chk p sv)) = L90_recheck
        \<and> freezing (es n) (cur (exec es n (refrigerator_entry chk p sv)))
      \<longrightarrow> map (\<lambda>k. pc (exec es (Suc n + k) (refrigerator_entry chk p sv)))
              [0, 1, 2, 3, 4, 5, 6]
            = [L63_set_frozen, L64_unlock, L66_save, L70_recalc_sigpending,
               L74_set_freezing, L77_set_state, L78_check]
          \<and> frozen (cur (exec es (Suc n) (refrigerator_entry chk p sv)))
          \<and> list_all (\<lambda>k. frozen (cur (exec es (Suc n + k) (refrigerator_entry chk p sv))))
               [1, 2, 3, 4, 5, 6]
          \<and> lock_held (exec es (Suc n) (refrigerator_entry chk p sv)))"
  (is "?A \<and> ?B")
proof
  let ?c = "\<lambda>i. exec es i (refrigerator_entry chk p sv)"
  have lk: "lock_held (?c i) = holds_lock (pc (?c i))" for i
    by (rule lock_exec) (simp add: refrigerator_entry_def)
  show ?A
  proof (intro impI, elim conjE)
    assume f: "frozen (cur (?c n))" and nf: "\<not> frozen (cur (?c (Suc n)))"
    from f nf have at: "pc (?c n) = L92_clear_frozen"
      using unfreeze_step [of "deliver (es n) (?c n)" "es n"] by (simp add: deliver_simps)
    have "n \<noteq> 0"
    proof
      assume "n = 0"
      with at show False by (simp add: refrigerator_entry_def)
    qed
    then obtain m where m: "n = Suc m"
      by (cases n) auto
    from at m have "pc (step (es m) (deliver (es m) (?c m))) = L92_clear_frozen"
      by simp
    from before_L92 [OF this] have pm: "pc (?c m) = L90_recheck"
      and b: "\<not> freezing (es m) (cur (deliver (es m) (?c m)))"
        "cur (step (es m) (deliver (es m) (?c m))) = cur (deliver (es m) (?c m))"
      by (simp_all add: deliver_fields)
    from pm lk [of m] have "deliver (es m) (?c m) = ?c m"
      by (simp add: deliver_locked)
    with b m pm
    have "pc (?c m) = L90_recheck" "\<not> freezing (es m) (cur (?c m))" "cur (?c n) = cur (?c m)"
      by simp_all
    with at m lk [of n] lk [of m] show "pc (?c n) = L92_clear_frozen \<and> lock_held (?c n)
        \<and> (\<exists>m. n = Suc m \<and> pc (?c m) = L90_recheck \<and> lock_held (?c m)
             \<and> cur (?c m) = cur (?c n) \<and> \<not> freezing (es m) (cur (?c n)))"
      by simp
  qed
  show ?B
  proof (intro impI, elim conjE)
    assume at: "pc (?c n) = L90_recheck" and fz: "freezing (es n) (cur (?c n))"
    define d where "d = ?c (Suc n)"
    have l: "lock_held (?c n)"
      using lk [of n] at by simp
    have "parked_flags (?c n)"
      by (rule parked_flags_exec) (simp add: parked_flags_def refrigerator_entry_def)
    with at fz l have fd: "frozen (cur d)"
      by (simp add: d_def step_def parked_flags_def deliver_locked)
    have pd: "pc d = L63_set_frozen" and ld: "lock_held d"
      using at fz l by (simp_all add: d_def step_def deliver_locked)
    have sh: "?c (Suc n + k) = exec (\<lambda>i. es (Suc n + i)) k d" for k
      unfolding d_def by (rule exec_add)
    have d0: "?c (Suc n) = d"
      by (simp add: d_def)
    show "map (\<lambda>k. pc (?c (Suc n + k))) [0, 1, 2, 3, 4, 5, 6]
            = [L63_set_frozen, L64_unlock, L66_save, L70_recalc_sigpending,
               L74_set_freezing, L77_set_state, L78_check]
          \<and> frozen (cur (?c (Suc n)))
          \<and> list_all (\<lambda>k. frozen (cur (?c (Suc n + k)))) [1, 2, 3, 4, 5, 6]
          \<and> lock_held (?c (Suc n))"
      unfolding sh d0 using reentry_pass(1,2) [OF pd ld, of "\<lambda>i. es (Suc n + i)"] ld fd
      by simp
  qed
qed

theorem frozen_cleared_only_after_recheck_witness:
  "(frozen (cur (exec (window pm_env 0 10) 15 (refrigerator_entry False (task0 0 1) 7)))
   \<and> \<not> frozen (cur (exec (window pm_env 0 10) (Suc 15)
          (refrigerator_entry False (task0 0 1) 7))))
   \<and> (pc (exec (window pm_env 0 10) 15 (refrigerator_entry False (task0 0 1) 7))
        = L92_clear_frozen
   \<and> lock_held (exec (window pm_env 0 10) 15 (refrigerator_entry False (task0 0 1) 7)))
   \<and> (pc (exec (window pm_env 9 12) 10 (refrigerator_entry False (task0 0 1) 7)) = L90_recheck
   \<and> freezing (window pm_env 9 12 10)
         (cur (exec (window pm_env 9 12) 10 (refrigerator_entry False (task0 0 1) 7))))
   \<and> frozen (cur (exec (window pm_env 9 12) (Suc 10) (refrigerator_entry False (task0 0 1) 7)))
   \<and> lock_held (exec (window pm_env 9 12) (Suc 10) (refrigerator_entry False (task0 0 1) 7))"
proof -
  have h1: "frozen (cur (exec (window pm_env 0 10) 15 (refrigerator_entry False (task0 0 1) 7)))
   \<and> \<not> frozen (cur (exec (window pm_env 0 10) (Suc 15)
          (refrigerator_entry False (task0 0 1) 7)))"
    by code_simp
  have h2: "pc (exec (window pm_env 9 12) 10 (refrigerator_entry False (task0 0 1) 7))
      = L90_recheck
   \<and> freezing (window pm_env 9 12 10)
         (cur (exec (window pm_env 9 12) 10 (refrigerator_entry False (task0 0 1) 7)))"
    by code_simp
  from frozen_cleared_only_after_recheck [of "window pm_env 0 10" 15 False "task0 0 1" 7]
    frozen_cleared_only_after_recheck [of "window pm_env 9 12" 10 False "task0 0 1" 7]
    h1 h2
  show ?thesis
    by blast
qed

subsection \<open>The saved state\<close>





subsection \<open>Re-entry\<close>

text \<open>
  C10, as claimed: after a taken re-entry the state the function restores on its final
  exit is \<open>TASK_UNINTERRUPTIBLE\<close>. It fails when \<open>__thaw_task\<close> lands on the frozen task
  between the re-check and the save of the new pass: line 169 wakes the task, line 66
  saves \<open>TASK_RUNNING\<close>, and that is what line 102 restores. Here the re-check of step 10
  is taken, the thaw lands before the save of step 13, and the function returns at step
  25 with the task runnable.
\<close>

theorem reentry_thawed_counterexample:
  "pc (exec (with_call Thaw_task 13 (window pm_env 9 12)) 10
         (refrigerator_entry False (task0 0 1) 7)) = L90_recheck
   \<and> freezing (with_call Thaw_task 13 (window pm_env 9 12) 10)
        (cur (exec (with_call Thaw_task 13 (window pm_env 9 12)) 10
               (refrigerator_entry False (task0 0 1) 7)))
   \<and> pc (exec (with_call Thaw_task 13 (window pm_env 9 12)) 13
         (refrigerator_entry False (task0 0 1) 7)) = L66_save
   \<and> pc (exec (with_call Thaw_task 13 (window pm_env 9 12)) 25
         (refrigerator_entry False (task0 0 1) 7)) = Returned False
   \<and> state (cur (exec (with_call Thaw_task 13 (window pm_env 9 12)) 25
         (refrigerator_entry False (task0 0 1) 7))) = TASK_RUNNING
   \<and> TASK_RUNNING \<noteq> TASK_UNINTERRUPTIBLE"
  by code_simp

text \<open>
  C10, amended. When \<open>__refrigerator\<close> takes the re-entry path (the re-check of line 90
  finds \<open>freezing(current)\<close> true), the task is back at line 63 and line 66 of the new
  pass overwrites \<open>save\<close> with the state the task has at that moment, which is
  \<open>TASK_UNINTERRUPTIBLE\<close> from line 77, or \<open>TASK_RUNNING\<close> if a wake has reached the task
  since. Whenever the function returns after that, the state it has restored is one of
  these two, whatever state the task entered with. When no \<open>__thaw_task\<close> lands on the
  task before a statement of lines 66, 78, 86 or 89 (the statements between line 77 and
  the save that run without the lock), it is \<open>TASK_UNINTERRUPTIBLE\<close>, which is not the
  state the task entered with unless that was \<open>TASK_UNINTERRUPTIBLE\<close> already.
\<close>

theorem reentry_restores_wait_state:
  "pc (exec es k (refrigerator_entry chk p sv)) = L90_recheck
   \<and> freezing (es k) (cur (exec es k (refrigerator_entry chk p sv)))
   \<longrightarrow> pc (exec es (Suc k) (refrigerator_entry chk p sv)) = L63_set_frozen
       \<and> pc (exec es (Suc k + 2) (refrigerator_entry chk p sv)) = L66_save
       \<and> save (exec es (Suc k + 3) (refrigerator_entry chk p sv))
           = state (cur (deliver (es (Suc k + 2))
               (exec es (Suc k + 2) (refrigerator_entry chk p sv))))
       \<and> (save (exec es (Suc k + 3) (refrigerator_entry chk p sv)) = TASK_UNINTERRUPTIBLE
            \<or> save (exec es (Suc k + 3) (refrigerator_entry chk p sv)) = TASK_RUNNING)
       \<and> (\<forall>n b. k < n \<and> pc (exec es n (refrigerator_entry chk p sv)) = Returned b
            \<longrightarrow> state (cur (exec es n (refrigerator_entry chk p sv))) = TASK_UNINTERRUPTIBLE
               \<or> state (cur (exec es n (refrigerator_entry chk p sv))) = TASK_RUNNING)
       \<and> ((\<forall>i. thaw_sensitive (pc (exec es i (refrigerator_entry chk p sv)))
                \<longrightarrow> Thaw_task \<notin> set (coordinator (es i)))
            \<longrightarrow> state (cur (exec es (Suc k) (refrigerator_entry chk p sv)))
                  = TASK_UNINTERRUPTIBLE
               \<and> save (exec es (Suc k + 3) (refrigerator_entry chk p sv))
                  = TASK_UNINTERRUPTIBLE
               \<and> (\<forall>n b. k < n \<and> pc (exec es n (refrigerator_entry chk p sv)) = Returned b
                    \<longrightarrow> state (cur (exec es n (refrigerator_entry chk p sv)))
                          = TASK_UNINTERRUPTIBLE
                       \<and> (state p \<noteq> TASK_UNINTERRUPTIBLE
                            \<longrightarrow> state (cur (exec es n (refrigerator_entry chk p sv)))
                                  \<noteq> state p)))"
proof (intro impI, elim conjE)
  let ?c = "\<lambda>i. exec es i (refrigerator_entry chk p sv)"
  assume at: "pc (?c k) = L90_recheck" and fz: "freezing (es k) (cur (?c k))"
  define d where "d = ?c (Suc k)"
  have lk: "lock_held (?c i) = holds_lock (pc (?c i))" for i
    by (rule lock_exec) (simp add: refrigerator_entry_def)
  have l: "lock_held (?c k)"
    using lk [of k] at by simp
  have dk: "d = (?c k)\<lparr>pc := L63_set_frozen\<rparr>"
    using at fz l by (simp add: d_def step_def deliver_locked)
  have pd: "pc d = L63_set_frozen" and ld: "lock_held d"
    using l by (simp_all add: dk)
  have sh: "?c (Suc k + j) = exec (\<lambda>i. es (Suc k + i)) j d" for j
    unfolding d_def by (rule exec_add)
  have d0: "?c (Suc k) = d"
    by (simp add: d_def)
  have later: "\<exists>j. n = Suc k + j" if "k < n" for n
    using that less_iff_Suc_add by auto
  have pass: "pc (?c (Suc k + 2)) = L66_save"
    "save (?c (Suc k + 3)) = state (cur (deliver (es (Suc k + 2)) (?c (Suc k + 2))))"
    unfolding sh using reentry_pass(1,3) [OF pd ld, of "\<lambda>i. es (Suc k + i)"] by simp_all
  \<comment> \<open>whatever the coordinator does\<close>
  have any0: "check_state unint_or_running (?c i)" for i
  proof (induction i)
    case 0
    then show ?case by (simp add: check_state_def refrigerator_entry_def)
  next
    case (Suc i)
    then show ?case
      by (simp add: check_state_step check_state_deliver_any state_props)
  qed
  from any0 [of k] at have "unint_or_running (state (cur (?c k)))"
    by (simp add: check_state_def)
  then have "reentered unint_or_running d"
    unfolding reentered_start [OF pd] by (simp add: dk)
  then have any: "reentered unint_or_running (?c (Suc k + j))" for j
    unfolding sh
    by (induction j) (simp_all add: reentered_step reentered_deliver_any state_props
        del: reentered.simps)
  have any_save: "unint_or_running (save (?c (Suc k + 3)))"
  proof -
    have "pc (?c (Suc k + 3)) = L70_recalc_sigpending"
      unfolding sh using reentry_pass(1) [OF pd ld, of "\<lambda>i. es (Suc k + i)"] by simp
    with any [of 3] show ?thesis
      by (rule reentered_saved)
  qed
  have any_ret: "unint_or_running (state (cur (?c n)))"
    if "k < n" "pc (?c n) = Returned b" for n b
  proof -
    from later [OF that(1)] obtain j where n: "n = Suc k + j" ..
    from any [of j] that(2) show ?thesis
      unfolding n by (rule reentered_returned)
  qed
  \<comment> \<open>when no thaw lands between line 77 and the save\<close>
  have exact: "state (cur d) = TASK_UNINTERRUPTIBLE
      \<and> save (?c (Suc k + 3)) = TASK_UNINTERRUPTIBLE
      \<and> (\<forall>n b. k < n \<and> pc (?c n) = Returned b
            \<longrightarrow> state (cur (?c n)) = TASK_UNINTERRUPTIBLE
               \<and> (state p \<noteq> TASK_UNINTERRUPTIBLE \<longrightarrow> state (cur (?c n)) \<noteq> state p))"
    if quiet: "\<forall>i. thaw_sensitive (pc (?c i)) \<longrightarrow> Thaw_task \<notin> set (coordinator (es i))"
  proof -
    have u0: "check_state is_unint (?c i)" for i
    proof (induction i)
      case 0
      then show ?case by (simp add: check_state_def refrigerator_entry_def)
    next
      case (Suc i)
      from check_state_deliver_unint [OF Suc lk [of i], of "es i"] quiet
      have "check_state is_unint (deliver (es i) (?c i))"
        by simp
      then show ?case
        by (simp add: check_state_step state_props)
    qed
    from u0 [of k] at have "is_unint (state (cur (?c k)))"
      by (simp add: check_state_def)
    then have rd: "reentered is_unint d"
      unfolding reentered_start [OF pd] by (simp add: dk)
    have u: "reentered is_unint (?c (Suc k + j))" for j
    proof (induction j)
      case 0
      with rd show ?case by (simp add: d_def del: reentered.simps exec.simps)
    next
      case (Suc j)
      from reentered_deliver_unint [OF Suc lk [of "Suc k + j"], of "es (Suc k + j)"] quiet
      have "reentered is_unint (deliver (es (Suc k + j)) (?c (Suc k + j)))"
        by simp
      then show ?case
        by (simp add: reentered_step state_props del: reentered.simps)
    qed
    have "pc (?c (Suc k + 3)) = L70_recalc_sigpending"
      unfolding sh using reentry_pass(1) [OF pd ld, of "\<lambda>i. es (Suc k + i)"] by simp
    with u [of 3] have "is_unint (save (?c (Suc k + 3)))"
      by (rule reentered_saved)
    then have sv3: "save (?c (Suc k + 3)) = TASK_UNINTERRUPTIBLE"
      by (simp add: is_unint_def)
    have ret: "state (cur (?c n)) = TASK_UNINTERRUPTIBLE"
      if "k < n" "pc (?c n) = Returned b" for n b
    proof -
      from later [OF that(1)] obtain j where n: "n = Suc k + j" ..
      from u [of j] that(2) have "is_unint (state (cur (?c n)))"
        unfolding n by (rule reentered_returned)
      then show ?thesis
        by (simp add: is_unint_def)
    qed
    from rd have "state (cur d) = TASK_UNINTERRUPTIBLE"
      unfolding reentered_start [OF pd] by (simp add: is_unint_def)
    with sv3 ret show ?thesis
      by auto
  qed
  show "pc (?c (Suc k)) = L63_set_frozen
       \<and> pc (?c (Suc k + 2)) = L66_save
       \<and> save (?c (Suc k + 3)) = state (cur (deliver (es (Suc k + 2)) (?c (Suc k + 2))))
       \<and> (save (?c (Suc k + 3)) = TASK_UNINTERRUPTIBLE \<or> save (?c (Suc k + 3)) = TASK_RUNNING)
       \<and> (\<forall>n b. k < n \<and> pc (?c n) = Returned b
            \<longrightarrow> state (cur (?c n)) = TASK_UNINTERRUPTIBLE \<or> state (cur (?c n)) = TASK_RUNNING)
       \<and> ((\<forall>i. thaw_sensitive (pc (?c i)) \<longrightarrow> Thaw_task \<notin> set (coordinator (es i)))
            \<longrightarrow> state (cur (?c (Suc k))) = TASK_UNINTERRUPTIBLE
               \<and> save (?c (Suc k + 3)) = TASK_UNINTERRUPTIBLE
               \<and> (\<forall>n b. k < n \<and> pc (?c n) = Returned b
                    \<longrightarrow> state (cur (?c n)) = TASK_UNINTERRUPTIBLE
                       \<and> (state p \<noteq> TASK_UNINTERRUPTIBLE
                            \<longrightarrow> state (cur (?c n)) \<noteq> state p)))"
    unfolding d0 using pd pass any_save any_ret exact
    unfolding unint_or_running_def d0 by blast
qed


theorem reentry_restores_wait_state_witness:
  "(pc (exec (with_call Thaw_task 14 (window pm_env 9 12)) 10
          (refrigerator_entry False (task0 0 1) 7)) = L90_recheck
    \<and> freezing (with_call Thaw_task 14 (window pm_env 9 12) 10)
         (cur (exec (with_call Thaw_task 14 (window pm_env 9 12)) 10
                (refrigerator_entry False (task0 0 1) 7))))
   \<and> pc (exec (with_call Thaw_task 14 (window pm_env 9 12)) 25
         (refrigerator_entry False (task0 0 1) 7)) = Returned False
   \<and> state (task0 0 1) = TASK_INTERRUPTIBLE
   \<and> state (cur (exec (with_call Thaw_task 14 (window pm_env 9 12)) 25
         (refrigerator_entry False (task0 0 1) 7))) = TASK_UNINTERRUPTIBLE"
proof -
  let ?es = "with_call Thaw_task 14 (window pm_env 9 12)"
  let ?c = "\<lambda>i. exec ?es i (refrigerator_entry False (task0 0 1) 7)"
  have h: "pc (?c 10) = L90_recheck \<and> freezing (?es 10) (cur (?c 10))"
    by code_simp
  have r: "pc (?c 25) = Returned False"
    by code_simp
  have s: "state (task0 0 1) = TASK_INTERRUPTIBLE"
    by (simp add: task0_def TASK_INTERRUPTIBLE_def)
  have k: "(10::nat) < 25"
    by simp
  have t: "\<not> thaw_sensitive (pc (?c 14))"
    by code_simp
  have q: "\<forall>i. thaw_sensitive (pc (?c i)) \<longrightarrow> Thaw_task \<notin> set (coordinator (?es i))"
  proof (intro allI impI)
    fix i assume a: "thaw_sensitive (pc (?c i))"
    with t have "i \<noteq> 14"
      by auto
    then show "Thaw_task \<notin> set (coordinator (?es i))"
      by (simp add: with_call_def window_def pm_env_def idle_env_def)
  qed
  from reentry_restores_wait_state [of ?es 10 False "task0 0 1" 7] h r s k q
  show ?thesis
    by blast
qed

section \<open>Freezable registration\<close>

text \<open>
  C9. \<open>__set_freezable(with_signal)\<close> takes \<open>freezer_lock\<close>, clears \<open>PF_NOFREEZE\<close> and, when
  \<open>with_signal\<close> is true, \<open>PF_FREEZER_NOSIG\<close> with the lock held, releases the lock and is
  then at \<open>try_to_freeze()\<close>: it evaluates \<open>freezing(current)\<close> at once; if that is false it
  returns false with the frozen flag untouched, and if it is true the rest of the
  execution is an execution of \<open>__refrigerator(false)\<close> on the task just made freezable,
  which sets \<open>PF_FROZEN\<close> under the lock two statements later, and whose result it
  returns. Hence scenario C: called with \<open>with_signal\<close> true while the no-signal freezing
  condition is in effect (\<open>pm_nosig_freezing\<close> true and, as the registry has it then, the
  counter of freezing conditions not zero) up to the task's first check in the wait
  loop, its thirteenth step, the task freezes during the call: it sets \<open>PF_FROZEN\<close> and
  \<open>PF_FREEZING\<close>, finds itself a freeze target in the wait loop, records \<open>was_frozen\<close> and
  reaches \<open>schedule()\<close> with both flags set; the call can return only later, with both
  flags cleared again and nothing but true, and it does return once the freezing
  episode has ended.
\<close>

theorem set_freezable_freezes:
  "lock_held (exec es 1 (set_freezable_entry ws p sv))
   \<and> flags (cur (exec es 1 (set_freezable_entry ws p sv))) = flags p
   \<and> lock_held (exec es 2 (set_freezable_entry ws p sv))
   \<and> flags (cur (exec es 2 (set_freezable_entry ws p sv))) = flags (clear_flag PF_NOFREEZE p)
   \<and> lock_held (exec es 3 (set_freezable_entry ws p sv))
   \<and> flags (cur (exec es 3 (set_freezable_entry ws p sv))) = flags (made_freezable ws p)
   \<and> \<not> test_flag PF_NOFREEZE (made_freezable ws p)
   \<and> test_flag PF_FREEZER_NOSIG (made_freezable ws p)
       = (\<not> ws \<and> test_flag PF_FREEZER_NOSIG p)
   \<and> frozen (made_freezable ws p) = frozen p
   \<and> exec es 4 (set_freezable_entry ws p sv)
       = try_to_freeze_entry (cur (exec es 4 (set_freezable_entry ws p sv))) sv
   \<and> flags (cur (exec es 4 (set_freezable_entry ws p sv))) = flags (made_freezable ws p)
   \<and> (\<not> freezing (es 4) (made_freezable ws p) \<longrightarrow>
        (\<forall>n. pc (exec es (5 + n) (set_freezable_entry ws p sv)) = Returned False
             \<and> flags (cur (exec es (5 + n) (set_freezable_entry ws p sv)))
                 = flags (made_freezable ws p)))
   \<and> (freezing (es 4) (made_freezable ws p) \<longrightarrow>
        exec es 5 (set_freezable_entry ws p sv)
          = refrigerator_entry False (cur (exec es 5 (set_freezable_entry ws p sv))) sv
        \<and> flags (cur (exec es 5 (set_freezable_entry ws p sv))) = flags (made_freezable ws p)
        \<and> (\<forall>n. exec es (5 + n) (set_freezable_entry ws p sv)
              = exec (\<lambda>i. es (5 + i)) n
                  (refrigerator_entry False (cur (exec es 5 (set_freezable_entry ws p sv))) sv))
        \<and> map (\<lambda>k. pc (exec es k (set_freezable_entry ws p sv))) [5, 6, 7]
            = [L61_lock, L63_set_frozen, L64_unlock]
        \<and> lock_held (exec es 6 (set_freezable_entry ws p sv))
        \<and> frozen (cur (exec es 7 (set_freezable_entry ws p sv))))
   \<and> (ws \<and> (\<forall>i\<le>12. pm_nosig_freezing (es i) \<and> system_freezing_cnt (es i) \<noteq> 0)
      \<longrightarrow> map (\<lambda>k. pc (exec es k (set_freezable_entry ws p sv)))
            [5, 6, 7, 8, 9, 10, 11, 12, 13, 14]
            = [L61_lock, L63_set_frozen, L64_unlock, L66_save, L70_recalc_sigpending,
               L74_set_freezing, L77_set_state, L78_check, L81_was_frozen, L82_schedule]
          \<and> list_all (\<lambda>k. frozen (cur (exec es k (set_freezable_entry ws p sv))))
               [7, 8, 9, 10, 11, 12, 13, 14]
          \<and> test_flag PF_FREEZING (cur (exec es 14 (set_freezable_entry ws p sv)))
          \<and> was_frozen (exec es 14 (set_freezable_entry ws p sv))
          \<and> (\<forall>n b. pc (exec es n (set_freezable_entry ws p sv)) = Returned b
                \<longrightarrow> b \<and> 14 < n
                   \<and> \<not> frozen (cur (exec es n (set_freezable_entry ws p sv)))
                   \<and> \<not> test_flag PF_FREEZING (cur (exec es n (set_freezable_entry ws p sv)))))
   \<and> (ws \<and> (\<forall>i\<le>12. pm_nosig_freezing (es i) \<and> system_freezing_cnt (es i) \<noteq> 0)
        \<and> (\<exists>N. \<forall>i\<ge>N. \<not> freezing (es i) (made_freezable ws p))
      \<longrightarrow> (\<exists>n. pc (exec es n (set_freezable_entry ws p sv)) = Returned True))"
  (is "?l1 \<and> ?f1 \<and> ?l2 \<and> ?f2 \<and> ?l3 \<and> ?f3 \<and> ?nf \<and> ?ns \<and> ?fr \<and> ?e4 \<and> ?f4
       \<and> ?no \<and> ?yes \<and> ?park \<and> ?ret")
proof -
  let ?init = "set_freezable_entry ws p sv"
  let ?c = "\<lambda>i. exec es i ?init"
  let ?q = "made_freezable ws p"
  define es5 where "es5 = (\<lambda>i. es (5 + i))"
  let ?es = "es5"
  define q5 where "q5 = cur (?c 5)"
  let ?r = "refrigerator_entry False q5 sv"
  note pre = set_freezable_prefix [of es ws p sv]
  have tgt: "freezing e (cur (?c 4)) = freezing e ?q" for e
    by (rule freezing_flags) (rule pre(8))
  have five: "?c 5 = step (es 4) (deliver (es 4) (try_to_freeze_entry (cur (?c 4)) sv))"
  proof -
    have "?c 5 = step (es 4) (deliver (es 4) (?c 4))"
      by (simp add: eval_nat_numeral)
    then show ?thesis
      using pre(7) by simp
  qed
  have d4: "flags (cur (deliver (es 4) (try_to_freeze_entry (cur (?c 4)) sv))) = flags ?q"
    using pre(8) by (simp add: deliver_flags try_to_freeze_entry_def)
  have no: "pc (?c (5 + n)) = Returned False \<and> flags (cur (?c (5 + n))) = flags ?q"
    if "\<not> freezing (es 4) ?q" for n
  proof -
    from that five tgt d4
    have "pc (?c 5) = Returned False \<and> flags (cur (?c 5)) = flags ?q"
      by (simp add: try_to_freeze_turn)
    then have a: "pc (?c 5) = Returned False" and b: "flags (cur (?c 5)) = flags ?q"
      by simp_all
    have "?c (5 + n) = ?c 5"
      using a by (rule returned_later)
    with a b show ?thesis
      by simp
  qed
  have ent: "?c 5 = ?r \<and> flags (cur (?c 5)) = flags ?q" if "freezing (es 4) ?q"
  proof -
    from that five tgt
    have a: "?c 5 = refrigerator_entry False
        (cur (deliver (es 4) (try_to_freeze_entry (cur (?c 4)) sv))) sv"
      by (simp add: try_to_freeze_turn)
    then have "cur (?c 5) = cur (deliver (es 4) (try_to_freeze_entry (cur (?c 4)) sv))"
      by (simp add: refrigerator_entry_def)
    with a d4 show ?thesis
      by (simp add: q5_def)
  qed
  have sh: "?c (5 + n) = exec ?es n ?r" if "freezing (es 4) ?q" for n
    unfolding exec_add [of es 5 n] es5_def using ent [OF that] by simp
  have shk: "?c 5 = exec ?es 0 ?r" "?c 6 = exec ?es 1 ?r" "?c 7 = exec ?es 2 ?r"
    "?c 8 = exec ?es 3 ?r" "?c 9 = exec ?es 4 ?r" "?c 10 = exec ?es 5 ?r"
    "?c 11 = exec ?es 6 ?r" "?c 12 = exec ?es 7 ?r" "?c 13 = exec ?es 8 ?r"
    "?c 14 = exec ?es 9 ?r" if "freezing (es 4) ?q"
    using sh [OF that, of 0] sh [OF that, of 1] sh [OF that, of 2] sh [OF that, of 3]
      sh [OF that, of 4] sh [OF that, of 5] sh [OF that, of 6] sh [OF that, of 7]
      sh [OF that, of 8] sh [OF that, of 9]
    by simp_all
  have lk: "lock_held (exec ?es i ?r) = holds_lock (pc (exec ?es i ?r))" for i
    by (rule lock_exec) (simp add: refrigerator_entry_def)
  have yes: "freezing (es 4) ?q \<longrightarrow> ?c 5 = ?r \<and> flags (cur (?c 5)) = flags ?q
        \<and> (\<forall>n. ?c (5 + n) = exec ?es n ?r)
        \<and> map (\<lambda>k. pc (?c k)) [5, 6, 7] = [L61_lock, L63_set_frozen, L64_unlock]
        \<and> lock_held (?c 6) \<and> frozen (cur (?c 7))"
  proof
    assume fz: "freezing (es 4) ?q"
    note k = shk [OF fz]
    have "map (\<lambda>k. pc (?c k)) [5, 6, 7] = [L61_lock, L63_set_frozen, L64_unlock]"
      "frozen (cur (?c 7))"
      using first_pass(1,2) [of ?es False q5 sv] by (simp_all add: k(1-3))
    moreover from this(1) have "lock_held (?c 6)"
      using lk [of 1] by (simp add: k(2))
    moreover have "\<forall>n. ?c (5 + n) = exec ?es n ?r"
      using sh [OF fz] by blast
    ultimately show "?c 5 = ?r \<and> flags (cur (?c 5)) = flags ?q
        \<and> (\<forall>n. ?c (5 + n) = exec ?es n ?r)
        \<and> map (\<lambda>k. pc (?c k)) [5, 6, 7] = [L61_lock, L63_set_frozen, L64_unlock]
        \<and> lock_held (?c 6) \<and> frozen (cur (?c 7))"
      using ent [OF fz] by blast
  qed
  have target: "freezing (es i) ?q"
    if "\<forall>i\<le>12. pm_nosig_freezing (es i) \<and> system_freezing_cnt (es i) \<noteq> 0" "i \<le> 12" for i
    using that by (simp add: freezing_def freezing_slow_path_def made_freezable_flags)
  have first: "freezing (?es 7) q5" "\<not> (False \<and> kthread_should_stop (?es 7))"
    if nosig: "\<forall>i\<le>12. pm_nosig_freezing (es i) \<and> system_freezing_cnt (es i) \<noteq> 0"
  proof -
    have "freezing (es 4) ?q"
      using target [OF nosig, of 4] by simp
    then have "flags (cur (?c 5)) = flags ?q"
      using ent by blast
    from freezing_flags [OF this, of "es 12"] target [OF nosig, of 12]
    show "freezing (?es 7) q5"
      by (simp add: q5_def es5_def)
    show "\<not> (False \<and> kthread_should_stop (?es 7))"
      by simp
  qed
  have park: ?park
  proof (intro impI, elim conjE)
    assume ws and nosig: "\<forall>i\<le>12. pm_nosig_freezing (es i) \<and> system_freezing_cnt (es i) \<noteq> 0"
    have fz: "freezing (es 4) ?q"
      using target [OF nosig, of 4] by simp
    note k = shk [OF fz]
    note f = first [OF nosig]
    note pk = parks [of es5 q5 False sv, OF f]
    have pcs: "map (\<lambda>k. pc (?c k)) [5, 6, 7, 8, 9, 10, 11, 12, 13, 14]
        = [L61_lock, L63_set_frozen, L64_unlock, L66_save, L70_recalc_sigpending,
           L74_set_freezing, L77_set_state, L78_check, L81_was_frozen, L82_schedule]"
      using first_pass(1) [of ?es False q5 sv] pk(1,2) by (simp add: k)
    have "parked_flags (exec ?es 8 ?r)"
      by (rule parked_flags_exec) (simp add: parked_flags_def refrigerator_entry_def)
    with pk(1) have "frozen (cur (exec ?es 8 ?r))"
      by (simp add: parked_flags_def)
    then have frz: "list_all (\<lambda>k. frozen (cur (?c k))) [7, 8, 9, 10, 11, 12, 13, 14]"
      using first_pass(2) [of ?es False q5 sv] pk(4) by (simp add: k)
    have ret: "b \<and> 14 < n \<and> \<not> frozen (cur (?c n)) \<and> \<not> test_flag PF_FREEZING (cur (?c n))"
      if r: "pc (?c n) = Returned b" for n b
    proof -
      have "?c (n + 5) = ?c n"
        using r by (rule returned_later)
      then have e: "exec ?es n ?r = ?c n"
        using sh [OF fz, of n] by (simp add: add.commute)
      with r have r': "pc (exec ?es n ?r) = Returned b"
        by simp
      have "9 < n"
        using refrigerator_returns_only_true(2) [of es5 q5 False n sv b, OF f r'] .
      have "14 < n"
      proof (rule ccontr)
        assume "\<not> 14 < n"
        then obtain j where "14 = n + j"
          using le_Suc_ex [of n 14] by auto
        with returned_later [OF r, of j] r have "pc (?c 14) = Returned b"
          by simp
        with pcs show False
          by simp
      qed
      with refrigerator_returns_only_true(1) [of es5 q5 False n sv b, OF f r'] refrigerator_exit_flags [OF r']
      show ?thesis
        unfolding e by simp
    qed
    have w: "test_flag PF_FREEZING (cur (?c 14))" "was_frozen (?c 14)"
      using pk(3,5) by (simp_all add: k(10))
    have r_all: "\<forall>n b. pc (?c n) = Returned b
            \<longrightarrow> b \<and> 14 < n \<and> \<not> frozen (cur (?c n))
               \<and> \<not> test_flag PF_FREEZING (cur (?c n))"
      using ret by blast
    show "map (\<lambda>k. pc (?c k)) [5, 6, 7, 8, 9, 10, 11, 12, 13, 14]
        = [L61_lock, L63_set_frozen, L64_unlock, L66_save, L70_recalc_sigpending,
           L74_set_freezing, L77_set_state, L78_check, L81_was_frozen, L82_schedule]
      \<and> list_all (\<lambda>k. frozen (cur (?c k))) [7, 8, 9, 10, 11, 12, 13, 14]
      \<and> test_flag PF_FREEZING (cur (?c 14))
      \<and> was_frozen (?c 14)
      \<and> (\<forall>n b. pc (?c n) = Returned b
            \<longrightarrow> b \<and> 14 < n \<and> \<not> frozen (cur (?c n))
               \<and> \<not> test_flag PF_FREEZING (cur (?c n)))"
      using pcs frz w r_all by blast
  qed
  have ret: ?ret
  proof (intro impI, elim conjE exE)
    fix N
    assume ws and nosig: "\<forall>i\<le>12. pm_nosig_freezing (es i) \<and> system_freezing_cnt (es i) \<noteq> 0"
      and ended: "\<forall>i\<ge>N. \<not> freezing (es i) ?q"
    have fz: "freezing (es 4) ?q"
      using target [OF nosig, of 4] by simp
    have "flags (cur (?c 5)) = flags ?q"
      using ent [OF fz] by blast
    from freezing_flags [OF this] ended
    have "\<forall>i\<ge>N. \<not> freezing (?es i) q5"
      by (simp add: q5_def es5_def)
    from refrigerator_returns [OF this, of False sv]
    obtain n b where r: "pc (exec ?es n ?r) = Returned b"
      by blast
    from refrigerator_returns_only_true(1) [of es5 q5 False n sv b, OF first [OF nosig] r] r
    have "pc (?c (5 + n)) = Returned True"
      using sh [OF fz, of n] by simp
    then show "\<exists>n. pc (?c n) = Returned True"
      by blast
  qed
  have no': ?no
    using no by blast
  have fr: ?fr
    unfolding frozen_def by (rule made_freezable_flags(3))
  from pre(1-6) made_freezable_flags(1,2) [of ws p] fr pre(7,8) no' yes [unfolded q5_def es5_def]
    park ret
  show ?thesis
    by blast
qed


theorem set_freezable_freezes_witness:
  "freezing (window nosig_env 0 20 4) (made_freezable True (task0 0x80008000 0))
   \<and> frozen (cur (exec (window nosig_env 0 20) 7
         (set_freezable_entry True (task0 0x80008000 0) 7)))
   \<and> pc (exec (window nosig_env 0 20) 14
         (set_freezable_entry True (task0 0x80008000 0) 7)) = L82_schedule
   \<and> frozen (cur (exec (window nosig_env 0 20) 14
         (set_freezable_entry True (task0 0x80008000 0) 7)))
   \<and> test_flag PF_FREEZING (cur (exec (window nosig_env 0 20) 14
         (set_freezable_entry True (task0 0x80008000 0) 7)))
   \<and> (\<exists>n. pc (exec (window nosig_env 0 20) n
         (set_freezable_entry True (task0 0x80008000 0) 7)) = Returned True)
   \<and> \<not> freezing idle_env (made_freezable False (task0 0x8000 0))
   \<and> pc (exec (\<lambda>i. idle_env) (5 + 0) (set_freezable_entry False (task0 0x8000 0) 7))
       = Returned False"
proof -
  let ?es = "window nosig_env 0 20"
  let ?c = "\<lambda>i. exec ?es i (set_freezable_entry True (task0 0x80008000 0) 7)"
  have h1: "\<forall>i\<le>12. pm_nosig_freezing (?es i) \<and> system_freezing_cnt (?es i) \<noteq> 0"
    by (simp add: window_def nosig_env_def)
  have "\<forall>i\<ge>20. \<not> freezing (?es i) (made_freezable True (task0 0x80008000 0))"
    by (simp add: window_def freezing_def idle_env_def)
  then have h2: "\<exists>N. \<forall>i\<ge>N. \<not> freezing (?es i) (made_freezable True (task0 0x80008000 0))"
    by blast
  have h4: "freezing (?es 4) (made_freezable True (task0 0x80008000 0))"
    by (simp add: window_def nosig_env_def freezing_def freezing_slow_path_def
        made_freezable_flags)
  have h5: "\<not> freezing idle_env (made_freezable False (task0 0x8000 0))"
    by (simp add: freezing_def idle_env_def)
  from set_freezable_freezes [of ?es True "task0 0x80008000 0" 7] h1 h2 h4
  have a: "frozen (cur (?c 7))"
    and b: "map (\<lambda>k. pc (?c k)) [5, 6, 7, 8, 9, 10, 11, 12, 13, 14]
        = [L61_lock, L63_set_frozen, L64_unlock, L66_save, L70_recalc_sigpending,
           L74_set_freezing, L77_set_state, L78_check, L81_was_frozen, L82_schedule]"
    and c: "list_all (\<lambda>k. frozen (cur (?c k))) [7, 8, 9, 10, 11, 12, 13, 14]"
    and d: "test_flag PF_FREEZING (cur (?c 14))"
    and e: "\<exists>n. pc (?c n) = Returned True"
    by blast+
  from b have b': "pc (?c 14) = L82_schedule"
    by simp
  from c have c': "frozen (cur (?c 14))"
    by simp
  from set_freezable_freezes [of "\<lambda>i. idle_env" False "task0 0x8000 0" 7] h5
  have f: "pc (exec (\<lambda>i. idle_env) (5 + 0) (set_freezable_entry False (task0 0x8000 0) 7))
       = Returned False"
    by blast
  from h4 a b' c' d e h5 f show ?thesis
    by blast
qed

section \<open>The frozen flag and the other flags\<close>

text \<open>
  C5, as claimed: whenever the frozen flag is true, the freezing flag has been true at or
  before that instant. It fails: line 63 sets \<open>PF_FROZEN\<close> eleven lines before line 74
  sets \<open>PF_FREEZING\<close>. A task with no flag set that enters the refrigerator during a
  freezing episode is frozen after its second step, and \<open>PF_FREEZING\<close> is clear then and
  was clear at every step before.
\<close>

theorem frozen_before_freezing_counterexample:
  "frozen (cur (exec (window pm_env 0 10) 2 (refrigerator_entry False (task0 0 0) 0)))
   \<and> \<not> test_flag PF_FREEZING
         (cur (exec (window pm_env 0 10) 0 (refrigerator_entry False (task0 0 0) 0)))
   \<and> \<not> test_flag PF_FREEZING
         (cur (exec (window pm_env 0 10) 1 (refrigerator_entry False (task0 0 0) 0)))
   \<and> \<not> test_flag PF_FREEZING
         (cur (exec (window pm_env 0 10) 2 (refrigerator_entry False (task0 0 0) 0)))"
  by code_simp

text \<open>
  C5, amended. In every execution of \<open>__refrigerator\<close> entered by a task that is not
  frozen, whenever the frozen flag is true, either the freezing flag has been true at or
  before that instant, or the task is in the window of a pass between line 63 (which
  has set frozen) and line 74 (which sets freezing). Whenever the task is in the wait
  loop, where it parks, both flags are set.
\<close>

theorem frozen_implies_freezing_seen:
  assumes "\<not> frozen p"
  shows "(frozen (cur (exec es n (refrigerator_entry chk p sv)))
          \<longrightarrow> (\<exists>m\<le>n. test_flag PF_FREEZING (cur (exec es m (refrigerator_entry chk p sv))))
              \<or> before_freezing (pc (exec es n (refrigerator_entry chk p sv))))
    \<and> (in_wait_loop (pc (exec es n (refrigerator_entry chk p sv)))
          \<longrightarrow> frozen (cur (exec es n (refrigerator_entry chk p sv)))
              \<and> test_flag PF_FREEZING (cur (exec es n (refrigerator_entry chk p sv))))"
proof -
  let ?init = "refrigerator_entry chk p sv"
  let ?c = "\<lambda>i. exec es i ?init"
  have r0: "in_refrigerator (pc ?init)"
    by (simp add: refrigerator_entry_def)
  have fr: "in_refrigerator (pc (?c i))" for i
    using refrigerator_frame [OF r0, of es i] by simp
  have "parked_flags ?init"
    by (simp add: parked_flags_def refrigerator_entry_def)
  then have pk: "parked_flags (?c n)"
    by (rule parked_flags_exec)
  have seen: "(at_entry (pc (?c i)) \<and> frozen (cur (?c i)) \<longrightarrow> freezing_seen es ?init i)
    \<and> (\<not> at_entry (pc (?c i)) \<and> \<not> before_freezing (pc (?c i)) \<longrightarrow> freezing_seen es ?init i)"
    for i
  proof (induction i)
    case 0
    with assms show ?case by (simp add: refrigerator_entry_def)
  next
    case (Suc i)
    have "(at_entry (pc (?c i)) \<and> frozen (cur (?c i)) \<longrightarrow> freezing_seen es ?init (Suc i))"
      "(\<not> at_entry (pc (?c i)) \<and> \<not> before_freezing (pc (?c i))
          \<longrightarrow> freezing_seen es ?init (Suc i))"
      using Suc freezing_seen_Suc [of es ?init i] by blast+
    then have "(at_entry (pc (deliver (es i) (?c i))) \<and> frozen (cur (deliver (es i) (?c i)))
          \<longrightarrow> freezing_seen es ?init (Suc i))"
      "(\<not> at_entry (pc (deliver (es i) (?c i))) \<and> \<not> before_freezing (pc (deliver (es i) (?c i)))
          \<longrightarrow> freezing_seen es ?init (Suc i))"
      by (simp_all add: deliver_simps)
    moreover have "in_refrigerator (pc (deliver (es i) (?c i)))"
      using fr [of i] by (simp add: deliver_fields)
    ultimately show ?case
      using seen_step [of "deliver (es i) (?c i)" "freezing_seen es ?init (Suc i)" "es i"]
        freezing_seen_now [of es "Suc i" ?init]
      by auto
  qed
  from seen [of n] pk show ?thesis
    unfolding freezing_seen_def parked_flags_def by blast
qed

theorem frozen_implies_freezing_seen_witness:
  "\<not> frozen (task0 0 0)
   \<and> in_wait_loop (pc (exec (window pm_env 0 10) 9 (refrigerator_entry False (task0 0 0) 0)))
   \<and> frozen (cur (exec (window pm_env 0 10) 9 (refrigerator_entry False (task0 0 0) 0)))
   \<and> test_flag PF_FREEZING
       (cur (exec (window pm_env 0 10) 9 (refrigerator_entry False (task0 0 0) 0)))"
proof -
  have h: "\<not> frozen (task0 0 0)"
    by (simp add: frozen_def test_flag_def task0_def)
  have w: "in_wait_loop
      (pc (exec (window pm_env 0 10) 9 (refrigerator_entry False (task0 0 0) 0)))"
    by code_simp
  from frozen_implies_freezing_seen [OF h, of "window pm_env 0 10" 9 False 0] h w
  show ?thesis
    by blast
qed

text \<open>
  C6, as claimed: at every instant, also across a direct call of \<open>__refrigerator\<close>, a set
  \<open>no_freeze\<close> flag means a clear frozen flag. It fails on a direct call: line 63 sets
  \<open>PF_FROZEN\<close> without looking at \<open>PF_NOFREEZE\<close> ("No point in checking freezing()
  again - the caller already did"). A task with \<open>PF_NOFREEZE\<close> set and nothing else has
  both flags set after the second step of \<open>__refrigerator(false)\<close>.
\<close>

theorem no_freeze_frozen_counterexample:
  "test_flag PF_NOFREEZE (task0 0x8000 0) \<and> \<not> frozen (task0 0x8000 0)
   \<and> test_flag PF_NOFREEZE
       (cur (exec (window idle_env 0 0) 2 (refrigerator_entry False (task0 0x8000 0) 0)))
   \<and> frozen
       (cur (exec (window idle_env 0 0) 2 (refrigerator_entry False (task0 0x8000 0) 0)))"
  by code_simp

text \<open>
  C6, amended. Starting from a task on which \<open>no_freeze\<close> implies not frozen, the
  implication holds at every instant of every execution of \<open>__set_freezable\<close> and of
  \<open>try_to_freeze\<close>, and of \<open>__refrigerator\<close> when the task enters it with \<open>PF_NOFREEZE\<close>
  clear, as it is when the caller has just seen \<open>freezing(current)\<close> true (the flag then
  stays clear throughout); \<open>freeze_task\<close> and \<open>__thaw_task\<close> do not touch the flag word.
\<close>

theorem no_freeze_not_frozen:
  assumes "test_flag PF_NOFREEZE p \<longrightarrow> \<not> frozen p"
  shows "(test_flag PF_NOFREEZE (cur (exec es n (set_freezable_entry ws p sv)))
          \<longrightarrow> \<not> frozen (cur (exec es n (set_freezable_entry ws p sv))))
    \<and> (test_flag PF_NOFREEZE (cur (exec es n (try_to_freeze_entry p sv)))
          \<longrightarrow> \<not> frozen (cur (exec es n (try_to_freeze_entry p sv))))
    \<and> (\<not> test_flag PF_NOFREEZE p
          \<longrightarrow> \<not> test_flag PF_NOFREEZE (cur (exec es n (refrigerator_entry chk p sv))))
    \<and> flags (fst (snd (freeze_task e p))) = flags p
    \<and> flags (fst (uu_thaw_task e p)) = flags p"
proof -
  have a: "nofreeze_inv (set_freezable_entry ws p sv)"
    and b: "nofreeze_inv (try_to_freeze_entry p sv)"
    using assms
    by (simp_all add: nofreeze_inv_def set_freezable_entry_def try_to_freeze_entry_def)
  have r: "in_refrigerator (pc (refrigerator_entry chk p sv))"
    by (simp add: refrigerator_entry_def)
  have d: "\<not> test_flag PF_NOFREEZE (cur (exec es n (refrigerator_entry chk p sv)))"
    if "\<not> test_flag PF_NOFREEZE p"
    using refrigerator_frame [OF r, of es n] that
    by (simp add: same_target_def refrigerator_entry_def)
  have f: "flags (fst (snd (freeze_task e p))) = flags p"
    by (simp add: freeze_task_def fake_signal_wake_up_def signal_wake_up_def wake_up_state_def)
  have t: "flags (fst (uu_thaw_task e p)) = flags p"
    by (simp add: uu_thaw_task_def wake_up_process_def recalc_sigpending_and_wake_def)
  from nofreeze_inv_holds [OF nofreeze_inv_exec [OF a, of es n]]
    nofreeze_inv_holds [OF nofreeze_inv_exec [OF b, of es n]] d f t
  show ?thesis
    by blast
qed

theorem no_freeze_not_frozen_witness:
  "test_flag PF_NOFREEZE (task0 0x8000 0) \<and> \<not> frozen (task0 0x8000 0)
   \<and> frozen (cur (exec (window nosig_env 0 20) 7 (set_freezable_entry True (task0 0x8000 0) 0)))
   \<and> \<not> test_flag PF_NOFREEZE
         (cur (exec (window nosig_env 0 20) 7 (set_freezable_entry True (task0 0x8000 0) 0)))"
proof -
  have h: "test_flag PF_NOFREEZE (task0 0x8000 0) \<and> \<not> frozen (task0 0x8000 0)"
    by code_simp
  have g: "frozen
      (cur (exec (window nosig_env 0 20) 7 (set_freezable_entry True (task0 0x8000 0) 0)))"
    by code_simp
  from h have "test_flag PF_NOFREEZE (task0 0x8000 0) \<longrightarrow> \<not> frozen (task0 0x8000 0)"
    by blast
  from no_freeze_not_frozen [OF this, of "window nosig_env 0 20" 7 True 0] h g
  show ?thesis
    by blast
qed

end
